theory Spec2Isabelle
  imports Complex_Main "HOL-Library.Word"
begin

unbundle bit_operations_syntax

section \<open>JavaScript values\<close>

text \<open>
  A JavaScript string is a sequence of UTF-16 code units. String literals of the source
  are ASCII and are written through \<open>js\<close>.
\<close>

type_synonym codeunit = "16 word"
type_synonym jsstring = "codeunit list"
type_synonym byte = "8 word"

definition js :: "string \<Rightarrow> jsstring" where
  "js s = map (\<lambda>c. of_nat (of_char c)) s"

text \<open>The bytes of an ASCII text, for writing upstream streams down.\<close>

definition ascii_bytes :: "string \<Rightarrow> byte list" where
  "ascii_bytes s = map (\<lambda>c. of_nat (of_char c)) s"

text \<open>
  A JavaScript number is a double. The operations the source applies to numbers
  (\<open>typeof\<close>, \<open>Number.isNaN\<close>, \<open>Math.min\<close>, \<open>Math.max\<close>, \<open>Math.floor\<close>) are
  exact on doubles, so a number is modelled by its value: NaN, an infinity, or a
  finite real. The sign of zero is not modelled.
\<close>

datatype jsnum = NaN | NegInf | Fin real | PosInf

text \<open>
  The result of \<open>JSON.parse\<close> (which is what \<open>express.json\<close> puts in \<open>req.body\<close>).
  \<open>JObject\<close> lists the members in source order; a later duplicate key wins.
  A missing property or argument (\<open>undefined\<close>) is \<open>None\<close> of \<open>json option\<close>.
\<close>

datatype json =
    JNull
  | JBool bool
  | JNumber jsnum
  | JString jsstring
  | JArray "json list"
  | JObject "(jsstring \<times> json) list"

datatype js_error = TypeError | SyntaxError | FetchError

text \<open>
  Property read \<open>v.k\<close> (and \<open>v?.k\<close>, which differs only on null and undefined) for
  the keys the source reads: \<open>messages\<close>, \<open>model\<close>, \<open>system\<close>, \<open>temperature\<close>,
  \<open>max_tokens\<close>, \<open>role\<close>, \<open>content\<close>, \<open>type\<close>, \<open>delta\<close>, \<open>text\<close>. None of them is
  defined on a built-in prototype, so only an own property of an object is found.
\<close>

fun get_prop :: "json option \<Rightarrow> jsstring \<Rightarrow> json option" where
  "get_prop (Some (JObject kvs)) k = map_of (rev kvs) k"
| "get_prop _ k = None"

section \<open>Strings\<close>

text \<open>
  The code units that \<open>String.prototype.trim\<close> strips and that \<open>\s\<close> matches:
  WhiteSpace and LineTerminator of ECMA-262 (TAB, LF, VT, FF, CR, SP, NBSP, the
  Unicode space separators, LS, PS, and the byte order mark).
\<close>

definition is_js_space :: "codeunit \<Rightarrow> bool" where
  "is_js_space c \<longleftrightarrow>
     (0x9 \<le> c \<and> c \<le> 0xD) \<or> c = 0x20 \<or> c = 0xA0 \<or> c = 0x1680
     \<or> (0x2000 \<le> c \<and> c \<le> 0x200A) \<or> c = 0x2028 \<or> c = 0x2029 \<or> c = 0x202F
     \<or> c = 0x205F \<or> c = 0x3000 \<or> c = 0xFEFF"

definition trim :: "jsstring \<Rightarrow> jsstring" where
  "trim s = rev (dropWhile is_js_space (rev (dropWhile is_js_space s)))"

definition startsWith :: "jsstring \<Rightarrow> jsstring \<Rightarrow> bool" where
  "startsWith s p \<longleftrightarrow> take (length p) s = p"

text \<open>
  \<open>String(x)\<close> on a parsed JSON value (ECMA-262 ToString). A number is printed by
  Number::toString, which depends on the double's digits and is taken as the
  parameter \<open>num\<close>. An array is joined with commas, null elements printing as the
  empty string. An object is converted by OrdinaryToPrimitive: without an own
  \<open>toString\<close> member it prints as \<open>[object Object]\<close>; with one (never callable in
  parsed JSON) the inherited \<open>valueOf\<close> returns the object itself and a TypeError is
  thrown.
\<close>

fun js_String :: "(jsnum \<Rightarrow> jsstring) \<Rightarrow> json \<Rightarrow> js_error + jsstring"
  and join_elems :: "(jsnum \<Rightarrow> jsstring) \<Rightarrow> json list \<Rightarrow> js_error + jsstring" where
  "js_String num JNull = Inr (js ''null'')"
| "js_String num (JBool b) = Inr (if b then js ''true'' else js ''false'')"
| "js_String num (JNumber n) = Inr (num n)"
| "js_String num (JString s) = Inr s"
| "js_String num (JArray xs) = join_elems num xs"
| "js_String num (JObject kvs) =
     (if map_of kvs (js ''toString'') \<noteq> None then Inl TypeError
      else Inr (js ''[object Object]''))"
| "join_elems num [] = Inr []"
| "join_elems num (x # xs) =
     (case (if x = JNull then Inr [] else js_String num x) of
        Inl e \<Rightarrow> Inl e
      | Inr s \<Rightarrow>
          (if xs = [] then Inr s
           else case join_elems num xs of
                  Inl e \<Rightarrow> Inl e
                | Inr r \<Rightarrow> Inr (s @ js '','' @ r)))"

text \<open>
  \<^verbatim>\<open>
  function safeString(x, max = 8000) {
    const s = String(x ?? "");
    return s.length > max ? s.slice(0, max) : s;
  }
  \<close>
\<close>

fun nullish_or :: "json option \<Rightarrow> json \<Rightarrow> json" where
  "nullish_or None d = d"
| "nullish_or (Some JNull) d = d"
| "nullish_or (Some v) d = v"

definition safeString :: "(jsnum \<Rightarrow> jsstring) \<Rightarrow> json option \<Rightarrow> nat \<Rightarrow> js_error + jsstring" where
  "safeString num x mx =
     (case js_String num (nullish_or x (JString [])) of
        Inl e \<Rightarrow> Inl e
      | Inr s \<Rightarrow> Inr (if length s > mx then take mx s else s))"

section \<open>Regular expressions\<close>

text \<open>
  The fragment of ECMAScript regular expressions the source uses, with the
  backtracking semantics of ECMA-262: a matcher maps a position to the list of
  positions where a match can end, in the order the backtracking search tries them.
  A position is the code unit before it (\<open>None\<close> at the start of the string), the rest
  of the string, and the substrings captured so far. All patterns of the source carry
  the flag \<open>i\<close> and not \<open>u\<close>: a literal letter matches both of its ASCII cases and
  nothing else, and the classes \<open>\s\<close>, \<open>\d\<close>, \<open>[^.\n]\<close> and the word characters of
  \<open>\b\<close> are unchanged. \<open>Star\<close> is the greedy \<open>*\<close> on a character class, the only
  place where the source uses it.
\<close>

datatype regex =
    Lit jsstring
  | Cls "codeunit \<Rightarrow> bool"
  | Star "codeunit \<Rightarrow> bool"
  | Opt regex
  | Seq regex regex
  | Alt regex regex
  | WordB
  | Group regex

type_synonym mstate = "codeunit option \<times> jsstring \<times> jsstring list"

definition lower_ascii :: "codeunit \<Rightarrow> codeunit" where
  "lower_ascii c = (if 0x41 \<le> c \<and> c \<le> 0x5A then c + 0x20 else c)"

definition is_digit :: "codeunit \<Rightarrow> bool" where
  "is_digit c \<longleftrightarrow> 0x30 \<le> c \<and> c \<le> 0x39"

definition is_word_char :: "codeunit \<Rightarrow> bool" where
  "is_word_char c \<longleftrightarrow>
     (0x61 \<le> c \<and> c \<le> 0x7A) \<or> (0x41 \<le> c \<and> c \<le> 0x5A) \<or> is_digit c \<or> c = 0x5F"

fun word_at :: "codeunit option \<Rightarrow> bool" where
  "word_at None = False"
| "word_at (Some c) = is_word_char c"

fun next_unit :: "jsstring \<Rightarrow> codeunit option" where
  "next_unit [] = None"
| "next_unit (c # cs) = Some c"

fun last_unit :: "codeunit option \<Rightarrow> jsstring \<Rightarrow> codeunit option" where
  "last_unit p [] = p"
| "last_unit p (c # cs) = last_unit (Some c) cs"

fun rmatch :: "regex \<Rightarrow> mstate \<Rightarrow> mstate list" where
  "rmatch (Lit l) (p, s, caps) =
     (if length l \<le> length s \<and> map lower_ascii (take (length l) s) = map lower_ascii l
      then [(last_unit p (take (length l) s), drop (length l) s, caps)] else [])"
| "rmatch (Cls f) (p, s, caps) =
     (case s of [] \<Rightarrow> [] | c # cs \<Rightarrow> if f c then [(Some c, cs, caps)] else [])"
| "rmatch (Star f) (p, s, caps) =
     map (\<lambda>k. (last_unit p (take k s), drop k s, caps))
         (rev [0 ..< Suc (length (takeWhile f s))])"
| "rmatch (Opt a) st = rmatch a st @ [st]"
| "rmatch (Seq a b) st = concat (map (rmatch b) (rmatch a st))"
| "rmatch (Alt a b) st = rmatch a st @ rmatch b st"
| "rmatch WordB (p, s, caps) =
     (if word_at p \<noteq> word_at (next_unit s) then [(p, s, caps)] else [])"
| "rmatch (Group a) (p, s, caps) =
     map (\<lambda>(p', s', caps'). (p', s', caps' @ [take (length s - length s') s]))
         (rmatch a (p, s, caps))"

fun n_groups :: "regex \<Rightarrow> nat" where
  "n_groups (Opt a) = n_groups a"
| "n_groups (Seq a b) = n_groups a + n_groups b"
| "n_groups (Alt a b) = n_groups a + n_groups b"
| "n_groups (Group a) = Suc (n_groups a)"
| "n_groups _ = 0"

text \<open>
  The first match that starts at the given position: the rest of the string after it
  and its captures.
\<close>

definition match_here :: "regex \<Rightarrow> codeunit option \<Rightarrow> jsstring \<Rightarrow> (jsstring \<times> jsstring list) option" where
  "match_here rx p s =
     (case rmatch rx (p, s, []) of [] \<Rightarrow> None | (p', s', caps) # _ \<Rightarrow> Some (s', caps))"

text \<open>\<open>RegExp.prototype.test\<close> (no flag \<open>g\<close>): is there a match at some position.\<close>

fun regex_test_from :: "regex \<Rightarrow> codeunit option \<Rightarrow> jsstring \<Rightarrow> bool" where
  "regex_test_from rx p [] = (match_here rx p [] \<noteq> None)"
| "regex_test_from rx p (c # cs) =
     (match_here rx p (c # cs) \<noteq> None \<or> regex_test_from rx (Some c) cs)"

definition regex_test :: "regex \<Rightarrow> jsstring \<Rightarrow> bool" where
  "regex_test rx s = regex_test_from rx None s"

text \<open>
  GetSubstitution of ECMA-262 for a replacement string and a pattern without named
  groups: \<open>$$\<close>, \<open>$&\<close>, \<open>$`\<close>, \<open>$'\<close>, \<open>$n\<close> and \<open>$nn\<close> are expanded, anything else
  is copied. \<open>m\<close> is the number of groups of the pattern; every group of the source's
  patterns takes part in every match.
\<close>

definition digit_val :: "codeunit \<Rightarrow> nat" where
  "digit_val c = unat c - 48"

fun GetSubstitution ::
  "jsstring \<Rightarrow> nat \<Rightarrow> jsstring \<Rightarrow> jsstring \<Rightarrow> jsstring \<Rightarrow> jsstring list \<Rightarrow> jsstring" where
  "GetSubstitution [] m matched pre post caps = []"
| "GetSubstitution [c] m matched pre post caps = [c]"
| "GetSubstitution (c # d # r) m matched pre post caps =
     (if c \<noteq> 0x24 then c # GetSubstitution (d # r) m matched pre post caps
      else if d = 0x24 then 0x24 # GetSubstitution r m matched pre post caps
      else if d = 0x26 then matched @ GetSubstitution r m matched pre post caps
      else if d = 0x60 then pre @ GetSubstitution r m matched pre post caps
      else if d = 0x27 then post @ GetSubstitution r m matched pre post caps
      else if is_digit d then
        (case r of
           e # r' \<Rightarrow>
             if is_digit e \<and> 10 * digit_val d + digit_val e \<le> m then
               (if 1 \<le> 10 * digit_val d + digit_val e
                then caps ! (10 * digit_val d + digit_val e - 1)
                       @ GetSubstitution r' m matched pre post caps
                else c # d # e # GetSubstitution r' m matched pre post caps)
             else if 1 \<le> digit_val d \<and> digit_val d \<le> m
               then caps ! (digit_val d - 1) @ GetSubstitution r m matched pre post caps
               else c # d # GetSubstitution r m matched pre post caps
         | [] \<Rightarrow>
             if 1 \<le> digit_val d \<and> digit_val d \<le> m
               then caps ! (digit_val d - 1)
               else [c, d])
      else c # GetSubstitution (d # r) m matched pre post caps)"

text \<open>
  \<open>str.replace(rx, tmpl)\<close> for a pattern with the flag \<open>g\<close>: the matches are found
  from left to right, each search starting where the previous match ended (one code
  unit further after an empty match); the text between matches is copied. \<open>seen\<close> is
  the part of the string before the current position, reversed.
\<close>

function replace_from :: "regex \<Rightarrow> jsstring \<Rightarrow> jsstring \<Rightarrow> jsstring \<Rightarrow> jsstring" where
  "replace_from rx tmpl seen s =
     (case match_here rx (next_unit seen) s of
        None \<Rightarrow>
          (case s of [] \<Rightarrow> [] | c # cs \<Rightarrow> c # replace_from rx tmpl (c # seen) cs)
      | Some (s', caps) \<Rightarrow>
          (let matched = take (length s - length s') s;
               rep = GetSubstitution tmpl (n_groups rx) matched (rev seen) s' caps
           in if length s' < length s
              then rep @ replace_from rx tmpl (rev matched @ seen) s'
              else rep @ (case s of [] \<Rightarrow> []
                          | c # cs \<Rightarrow> c # replace_from rx tmpl (c # seen) cs)))"
  by pat_completeness auto
termination
  by (relation "measure (\<lambda>(rx, tmpl, seen, s). length s)") auto

definition replace_all :: "regex \<Rightarrow> jsstring \<Rightarrow> jsstring \<Rightarrow> jsstring" where
  "replace_all rx tmpl s = replace_from rx tmpl [] s"

fun alts :: "regex list \<Rightarrow> regex" where
  "alts [] = Lit []"
| "alts [a] = a"
| "alts (a # as) = Alt a (alts as)"

section \<open>Content rewriting\<close>

text \<open>
  The patterns of both variants:
  \<^verbatim>\<open>
  /\b(Claude|Anthropic|OpenAI|ChatGPT|GPT[-\s]?\d*)\b/gi
  /\b(trained by|developed by|powered by|built by|created by)\b[^.\n]*[.\n]?/gi
  /\b(trained by|developed by|powered by|built by|created by|made by)\b[^.\n]*[.\n]?/gi
  /\bAI safety company\b/gi
  \<close>
\<close>

definition rx_vendor :: regex where
  "rx_vendor =
     Seq WordB (Seq (Group (alts
       [Lit (js ''Claude''), Lit (js ''Anthropic''), Lit (js ''OpenAI''), Lit (js ''ChatGPT''),
        Seq (Lit (js ''GPT''))
            (Seq (Opt (Cls (\<lambda>c. c = 0x2D \<or> is_js_space c))) (Star is_digit))])) WordB)"

definition rx_attribution :: regex where
  "rx_attribution =
     Seq WordB (Seq (Group (alts
       [Lit (js ''trained by''), Lit (js ''developed by''), Lit (js ''powered by''),
        Lit (js ''built by''), Lit (js ''created by'')]))
       (Seq WordB (Seq (Star (\<lambda>c. c \<noteq> 0x2E \<and> c \<noteq> 0xA))
                       (Opt (Cls (\<lambda>c. c = 0x2E \<or> c = 0xA))))))"

definition rx_attribution_brand :: regex where
  "rx_attribution_brand =
     Seq WordB (Seq (Group (alts
       [Lit (js ''trained by''), Lit (js ''developed by''), Lit (js ''powered by''),
        Lit (js ''built by''), Lit (js ''created by''), Lit (js ''made by'')]))
       (Seq WordB (Seq (Star (\<lambda>c. c \<noteq> 0x2E \<and> c \<noteq> 0xA))
                       (Opt (Cls (\<lambda>c. c = 0x2E \<or> c = 0xA))))))"

definition rx_safety :: regex where
  "rx_safety = Seq WordB (Seq (Lit (js ''AI safety company'')) WordB)"

text \<open>
  The redacting rewriter. Its argument is a non-empty string at its only call site,
  so the guard \<open>!text || typeof text !== "string"\<close> only catches the empty string.
  \<^verbatim>\<open>
  function enforceNoProviderLeak(text) {
    if (!text || typeof text !== "string") return text;
    let out = text;
    out = out.replace(/\b(Claude|...|GPT[-\s]?\d*)\b/gi, "this assistant");
    out = out.replace(/\b(trained by|...|created by)\b[^.\n]*[.\n]?/gi, "");
    return out;
  }
  \<close>
\<close>

definition enforceNoProviderLeak :: "jsstring \<Rightarrow> jsstring" where
  "enforceNoProviderLeak text =
     (if text = [] then text
      else replace_all rx_attribution []
             (replace_all rx_vendor (js ''this assistant'') text))"

text \<open>The configuration read from the environment at startup.\<close>

record config =
  DEFAULT_MODEL :: jsstring
  BRAND_MODEL :: jsstring
  BRAND_MAKER :: jsstring

text \<open>
  The rebranding rewriter.
  \<^verbatim>\<open>
  function enforceBranding(text) {
    if (!text || typeof text !== "string") return text;
    let out = text;
    out = out.replace(/\b(Claude|...|GPT[-\s]?\d*)\b/gi, BRAND_MODEL);
    out = out.replace(/\b(trained by|...|made by)\b[^.\n]*[.\n]?/gi, `made by ${BRAND_MAKER}. `);
    out = out.replace(/\bAI safety company\b/gi, "team");
    return out;
  }
  \<close>
\<close>

definition enforceBranding :: "config \<Rightarrow> jsstring \<Rightarrow> jsstring" where
  "enforceBranding cfg text =
     (if text = [] then text
      else replace_all rx_safety (js ''team'')
             (replace_all rx_attribution_brand (js ''made by '' @ BRAND_MAKER cfg @ js ''. '')
                (replace_all rx_vendor (BRAND_MODEL cfg) text)))"

section \<open>JSON.parse\<close>

text \<open>
  \<open>JSON.parse\<close> on a string, after the JSON grammar of ECMA-404: a recursive descent
  parser. The fuel bounds the chain of nested calls; twice the length of the text is
  enough (lemma \<open>JSON_parse_fuel_enough\<close>). A text that is not JSON throws a
  SyntaxError. A number literal is given its decimal value (the
  rounding to a double is left out; no code of the source reads a parsed number of
  the stream).
\<close>

definition is_json_ws :: "codeunit \<Rightarrow> bool" where
  "is_json_ws c \<longleftrightarrow> c = 0x20 \<or> c = 0x9 \<or> c = 0xA \<or> c = 0xD"

definition skip_ws :: "jsstring \<Rightarrow> jsstring" where
  "skip_ws s = dropWhile is_json_ws s"

definition hex_val :: "codeunit \<Rightarrow> nat option" where
  "hex_val c =
     (if 0x30 \<le> c \<and> c \<le> 0x39 then Some (unat c - 0x30)
      else if 0x61 \<le> c \<and> c \<le> 0x66 then Some (unat c - 0x61 + 10)
      else if 0x41 \<le> c \<and> c \<le> 0x46 then Some (unat c - 0x41 + 10)
      else None)"

definition hex4 :: "codeunit \<Rightarrow> codeunit \<Rightarrow> codeunit \<Rightarrow> codeunit \<Rightarrow> codeunit option" where
  "hex4 a b c d =
     (case (hex_val a, hex_val b, hex_val c, hex_val d) of
        (Some w, Some x, Some y, Some z) \<Rightarrow> Some (of_nat (((w * 16 + x) * 16 + y) * 16 + z))
      | _ \<Rightarrow> None)"

definition simple_escape :: "codeunit \<Rightarrow> codeunit option" where
  "simple_escape e =
     (if e = 0x22 \<or> e = 0x5C \<or> e = 0x2F then Some e
      else if e = 0x62 then Some 0x8
      else if e = 0x66 then Some 0xC
      else if e = 0x6E then Some 0xA
      else if e = 0x72 then Some 0xD
      else if e = 0x74 then Some 0x9
      else None)"

definition cons_result :: "codeunit \<Rightarrow> (jsstring \<times> jsstring) option \<Rightarrow> (jsstring \<times> jsstring) option" where
  "cons_result u res = (case res of None \<Rightarrow> None | Some (str, r) \<Rightarrow> Some (u # str, r))"

text \<open>The characters of a string literal after its opening quote, and the rest.\<close>

fun parse_string_body :: "jsstring \<Rightarrow> (jsstring \<times> jsstring) option" where
  "parse_string_body [] = None"
| "parse_string_body (c # r) =
     (if c = 0x22 then Some ([], r)
      else if c = 0x5C then
        (case r of
           [] \<Rightarrow> None
         | e # r' \<Rightarrow>
             if e = 0x75 then
               (case r' of
                  h1 # h2 # h3 # h4 # r'' \<Rightarrow>
                    (case hex4 h1 h2 h3 h4 of
                       None \<Rightarrow> None
                     | Some u \<Rightarrow> cons_result u (parse_string_body r''))
                | _ \<Rightarrow> None)
             else
               (case simple_escape e of
                  None \<Rightarrow> None
                | Some u \<Rightarrow> cons_result u (parse_string_body r')))
      else if c < 0x20 then None
      else cons_result c (parse_string_body r))"

definition nat_of_digits :: "jsstring \<Rightarrow> nat" where
  "nat_of_digits ds = foldl (\<lambda>a d. 10 * a + digit_val d) 0 ds"

text \<open>
  \<open>-? (0 | [1-9][0-9]*) (. [0-9]+)? ([eE] [+-]? [0-9]+)?\<close>
\<close>

definition parse_exponent :: "jsstring \<Rightarrow> (int \<times> jsstring) option" where
  "parse_exponent s =
     (case s of
        [] \<Rightarrow> Some (0, s)
      | c # r \<Rightarrow>
          if c = 0x65 \<or> c = 0x45 then
            (let neg = (case r of d # _ \<Rightarrow> d = 0x2D | [] \<Rightarrow> False);
                 r1 = (case r of d # r' \<Rightarrow> if d = 0x2D \<or> d = 0x2B then r' else r | [] \<Rightarrow> r);
                 ds = takeWhile is_digit r1
             in if ds = [] then None
                else Some ((if neg then - int (nat_of_digits ds) else int (nat_of_digits ds)),
                           dropWhile is_digit r1))
          else Some (0, s))"

definition parse_fraction :: "jsstring \<Rightarrow> (real \<times> jsstring) option" where
  "parse_fraction s =
     (case s of
        [] \<Rightarrow> Some (0, s)
      | c # r \<Rightarrow>
          if c = 0x2E then
            (let ds = takeWhile is_digit r
             in if ds = [] then None
                else Some (real (nat_of_digits ds) / 10 ^ length ds, dropWhile is_digit r))
          else Some (0, s))"

definition parse_number :: "jsstring \<Rightarrow> (jsnum \<times> jsstring) option" where
  "parse_number s =
     (let neg = (case s of c # _ \<Rightarrow> c = 0x2D | [] \<Rightarrow> False);
          s1 = (if neg then tl s else s);
          ds = (case s1 of c # _ \<Rightarrow> if c = 0x30 then [c] else takeWhile is_digit s1 | [] \<Rightarrow> [])
      in if ds = [] then None
         else case parse_fraction (drop (length ds) s1) of
                None \<Rightarrow> None
              | Some (f, s2) \<Rightarrow>
                  (case parse_exponent s2 of
                     None \<Rightarrow> None
                   | Some (e, s3) \<Rightarrow>
                       (let m = real (nat_of_digits ds) + f;
                            v = (if 0 \<le> e then m * 10 ^ nat e else m / 10 ^ nat (- e))
                        in Some (Fin (if neg then - v else v), s3))))"

fun parse_value :: "nat \<Rightarrow> jsstring \<Rightarrow> (json \<times> jsstring) option"
  and parse_elements :: "nat \<Rightarrow> jsstring \<Rightarrow> json list \<Rightarrow> (json \<times> jsstring) option"
  and parse_members :: "nat \<Rightarrow> jsstring \<Rightarrow> (jsstring \<times> json) list \<Rightarrow> (json \<times> jsstring) option"
  where
  "parse_value 0 s = None"
| "parse_value (Suc n) s =
     (case skip_ws s of
        [] \<Rightarrow> None
      | c # r \<Rightarrow>
          if c = 0x7B then
            (case skip_ws r of
               [] \<Rightarrow> None
             | c' # r' \<Rightarrow> if c' = 0x7D then Some (JObject [], r') else parse_members n (c' # r') [])
          else if c = 0x5B then
            (case skip_ws r of
               [] \<Rightarrow> None
             | c' # r' \<Rightarrow> if c' = 0x5D then Some (JArray [], r') else parse_elements n (c' # r') [])
          else if c = 0x22 then
            (case parse_string_body r of None \<Rightarrow> None | Some (str, r') \<Rightarrow> Some (JString str, r'))
          else if startsWith (c # r) (js ''true'') then Some (JBool True, drop 4 (c # r))
          else if startsWith (c # r) (js ''false'') then Some (JBool False, drop 5 (c # r))
          else if startsWith (c # r) (js ''null'') then Some (JNull, drop 4 (c # r))
          else (case parse_number (c # r) of None \<Rightarrow> None | Some (x, r') \<Rightarrow> Some (JNumber x, r')))"
| "parse_elements 0 s acc = None"
| "parse_elements (Suc n) s acc =
     (case parse_value n s of
        None \<Rightarrow> None
      | Some (v, r) \<Rightarrow>
          (case skip_ws r of
             [] \<Rightarrow> None
           | c # r' \<Rightarrow>
               if c = 0x2C then parse_elements n r' (acc @ [v])
               else if c = 0x5D then Some (JArray (acc @ [v]), r')
               else None))"
| "parse_members 0 s acc = None"
| "parse_members (Suc n) s acc =
     (case skip_ws s of
        [] \<Rightarrow> None
      | c # r \<Rightarrow>
          if c \<noteq> 0x22 then None
          else case parse_string_body r of
            None \<Rightarrow> None
          | Some (k, r1) \<Rightarrow>
              (case skip_ws r1 of
                 [] \<Rightarrow> None
               | c1 # r2 \<Rightarrow>
                   if c1 \<noteq> 0x3A then None
                   else case parse_value n r2 of
                     None \<Rightarrow> None
                   | Some (v, r3) \<Rightarrow>
                       (case skip_ws r3 of
                          [] \<Rightarrow> None
                        | c3 # r4 \<Rightarrow>
                            if c3 = 0x2C then parse_members n r4 (acc @ [(k, v)])
                            else if c3 = 0x7D then Some (JObject (acc @ [(k, v)]), r4)
                            else None)))"

definition JSON_parse :: "jsstring \<Rightarrow> js_error + json" where
  "JSON_parse s =
     (case parse_value (2 * length s + 2) s of
        None \<Rightarrow> Inl SyntaxError
      | Some (v, r) \<Rightarrow> if skip_ws r = [] then Inr v else Inl SyntaxError)"

section \<open>The SSE pipeline\<close>

subsection \<open>The streaming UTF-8 decoder\<close>

text \<open>
  \<open>new TextDecoder("utf-8")\<close> with \<open>decode(value, { stream: true })\<close>, after the
  UTF-8 decoder of the WHATWG Encoding standard: a state machine over bytes whose
  state (the code point under construction, the bytes seen and needed, the bounds of
  the next byte) survives from one chunk to the next. A malformed sequence gives
  U+FFFD and the offending byte is read again as the start of a sequence. The first
  code point of the stream is dropped when it is the byte order mark.
\<close>

record utf8_state =
  code_point :: "32 word"
  bytes_seen :: nat
  bytes_needed :: nat
  lower_boundary :: byte
  upper_boundary :: byte

definition utf8_init :: utf8_state where
  "utf8_init = \<lparr>code_point = 0, bytes_seen = 0, bytes_needed = 0,
                 lower_boundary = 0x80, upper_boundary = 0xBF\<rparr>"

definition utf8_lead :: "byte \<Rightarrow> 32 word list \<times> utf8_state" where
  "utf8_lead b =
     (if b \<le> 0x7F then ([ucast b], utf8_init)
      else if 0xC2 \<le> b \<and> b \<le> 0xDF then
        ([], utf8_init\<lparr>bytes_needed := 1, code_point := ucast (b AND 0x1F)\<rparr>)
      else if 0xE0 \<le> b \<and> b \<le> 0xEF then
        ([], utf8_init\<lparr>lower_boundary := (if b = 0xE0 then 0xA0 else 0x80),
                        upper_boundary := (if b = 0xED then 0x9F else 0xBF),
                        bytes_needed := 2, code_point := ucast (b AND 0xF)\<rparr>)
      else if 0xF0 \<le> b \<and> b \<le> 0xF4 then
        ([], utf8_init\<lparr>lower_boundary := (if b = 0xF0 then 0x90 else 0x80),
                        upper_boundary := (if b = 0xF4 then 0x8F else 0xBF),
                        bytes_needed := 3, code_point := ucast (b AND 0x7)\<rparr>)
      else ([0xFFFD], utf8_init))"

definition utf8_step :: "utf8_state \<Rightarrow> byte \<Rightarrow> 32 word list \<times> utf8_state" where
  "utf8_step st b =
     (if bytes_needed st = 0 then utf8_lead b
      else if \<not> (lower_boundary st \<le> b \<and> b \<le> upper_boundary st) then
        (case utf8_lead b of (out, st') \<Rightarrow> (0xFFFD # out, st'))
      else
        (let cp = push_bit 6 (code_point st) OR ucast (b AND 0x3F);
             seen = bytes_seen st + 1
         in if seen \<noteq> bytes_needed st
            then ([], st\<lparr>lower_boundary := 0x80, upper_boundary := 0xBF,
                          code_point := cp, bytes_seen := seen\<rparr>)
            else ([cp], utf8_init)))"

text \<open>A code point as UTF-16 code units.\<close>

definition utf16_units :: "32 word \<Rightarrow> jsstring" where
  "utf16_units cp =
     (if cp < 0x10000 then [ucast cp]
      else [0xD800 + ucast (drop_bit 10 (cp - 0x10000)),
            0xDC00 + ucast ((cp - 0x10000) AND 0x3FF)])"

record text_decoder =
  utf8 :: utf8_state
  bom_seen :: bool

definition new_TextDecoder :: text_decoder where
  "new_TextDecoder = \<lparr>utf8 = utf8_init, bom_seen = False\<rparr>"

definition decode_byte :: "text_decoder \<Rightarrow> byte \<Rightarrow> jsstring \<times> text_decoder" where
  "decode_byte d b =
     (case utf8_step (utf8 d) b of
        (cps, st) \<Rightarrow>
          (concat (map utf16_units
             (if bom_seen d then cps
              else case cps of [] \<Rightarrow> [] | c # cs \<Rightarrow> if c = 0xFEFF then cs else c # cs)),
           \<lparr>utf8 = st, bom_seen = (bom_seen d \<or> cps \<noteq> [])\<rparr>))"

text \<open>\<open>decoder.decode(value, { stream: true })\<close>: the text of one chunk and the decoder after it.\<close>

fun decode :: "text_decoder \<Rightarrow> byte list \<Rightarrow> jsstring \<times> text_decoder" where
  "decode d [] = ([], d)"
| "decode d (b # bs) =
     (case decode_byte d b of
        (t, d') \<Rightarrow> (case decode d' bs of (t', d'') \<Rightarrow> (t @ t', d'')))"

subsection \<open>Splitting\<close>

text \<open>
  \<open>s.split(sep)\<close> for a non-empty separator string: the pieces between the
  occurrences of \<open>sep\<close>, found from left to right without overlap. The result is
  never empty; the empty string gives one empty piece.
\<close>

function split :: "jsstring \<Rightarrow> jsstring \<Rightarrow> jsstring list" where
  "split sep [] = [[]]"
| "split sep (c # cs) =
     (if sep \<noteq> [] \<and> startsWith (c # cs) sep
      then [] # split sep (drop (length sep) (c # cs))
      else case split sep cs of [] \<Rightarrow> [[c]] | p # ps \<Rightarrow> (c # p) # ps)"
  by pat_completeness auto
termination
  by (relation "measure (\<lambda>(sep, s). length s)") auto

subsection \<open>From a data line to client writes\<close>

definition error_sentinel :: jsstring where
  "error_sentinel = [0xA, 0xA] @ js ''[error] Something went wrong.''"

text \<open>
  The body of the loop over data lines, with the rewriter as parameter
  (\<open>enforceNoProviderLeak\<close> in one variant, \<open>enforceBranding\<close> in the other). The
  result is the list of the strings passed to \<open>res.write\<close>, in order.
  \<^verbatim>\<open>
  const jsonStr = dataLine.slice("data: ".length).trim();
  if (!jsonStr || jsonStr === "[DONE]") continue;
  let payload;
  try { payload = JSON.parse(jsonStr); } catch { continue; }
  if (payload?.type === "content_block_delta") {
    const deltaText = payload?.delta?.text;
    if (typeof deltaText === "string" && deltaText.length) {
      res.write(rewrite(deltaText));
    }
  }
  if (payload?.type === "error") {
    res.write("\n\n[error] Something went wrong.");
  }
  \<close>
\<close>

definition handle_payload :: "(jsstring \<Rightarrow> jsstring) \<Rightarrow> json \<Rightarrow> jsstring list" where
  "handle_payload rewrite payload =
     (if get_prop (Some payload) (js ''type'') = Some (JString (js ''content_block_delta''))
      then (case get_prop (get_prop (Some payload) (js ''delta'')) (js ''text'') of
              Some (JString deltaText) \<Rightarrow> if deltaText \<noteq> [] then [rewrite deltaText] else []
            | _ \<Rightarrow> [])
      else [])
     @ (if get_prop (Some payload) (js ''type'') = Some (JString (js ''error''))
        then [error_sentinel] else [])"

definition handle_data_line :: "(jsstring \<Rightarrow> jsstring) \<Rightarrow> jsstring \<Rightarrow> jsstring list" where
  "handle_data_line rewrite dataLine =
     (let jsonStr = trim (drop (length (js ''data: '')) dataLine)
      in if jsonStr = [] \<or> jsonStr = js ''[DONE]'' then []
         else case JSON_parse jsonStr of
                Inl e \<Rightarrow> []
              | Inr payload \<Rightarrow> handle_payload rewrite payload)"

text \<open>
  One frame in the redacting variant (\<open>claude-chat/server.js\<close>): the first data line only.
  \<^verbatim>\<open>
  const dataLine = frame.split("\n").find((line) => line.startsWith("data: "));
  if (!dataLine) continue;
  \<close>
\<close>

definition handle_frame_redact :: "jsstring \<Rightarrow> jsstring list" where
  "handle_frame_redact frame =
     (case find (\<lambda>line. startsWith line (js ''data: '')) (split [0xA] frame) of
        None \<Rightarrow> []
      | Some dataLine \<Rightarrow> handle_data_line enforceNoProviderLeak dataLine)"

text \<open>
  One frame in the rebranding variant: every data line.
  \<^verbatim>\<open>
  // Anthropic SSE can contain multiple `data:` lines
  const dataLines = frame.split("\n").filter((line) => line.startsWith("data: "));
  if (!dataLines.length) continue;
  for (const dataLine of dataLines) { ... }
  \<close>
\<close>

definition handle_frame_rebrand :: "config \<Rightarrow> jsstring \<Rightarrow> jsstring list" where
  "handle_frame_rebrand cfg frame =
     concat (map (handle_data_line (enforceBranding cfg))
       (filter (\<lambda>line. startsWith line (js ''data: '')) (split [0xA] frame)))"

text \<open>
  The read loop, for an upstream body that delivers the given chunks and then ends.
  \<^verbatim>\<open>
  let buffer = "";
  while (true) {
    const { value, done } = await reader.read();
    if (done) break;
    buffer += decoder.decode(value, { stream: true });
    const frames = buffer.split("\n\n");
    buffer = frames.pop() || "";
    for (const frame of frames) { ... }
  }
  \<close>
\<close>

fun read_loop ::
  "(jsstring \<Rightarrow> jsstring list) \<Rightarrow> text_decoder \<Rightarrow> jsstring \<Rightarrow> byte list list \<Rightarrow> jsstring list" where
  "read_loop handle_frame decoder buffer [] = []"
| "read_loop handle_frame decoder buffer (chunk # chunks) =
     (case decode decoder chunk of
        (text, decoder') \<Rightarrow>
          (let frames = split [0xA, 0xA] (buffer @ text)
           in concat (map handle_frame (butlast frames))
              @ read_loop handle_frame decoder' (last frames) chunks))"

definition pipeAnthropicSSEToPlainText_redact :: "byte list list \<Rightarrow> jsstring list" where
  "pipeAnthropicSSEToPlainText_redact chunks =
     read_loop handle_frame_redact new_TextDecoder [] chunks"

definition pipeAnthropicSSEToPlainText_rebrand :: "config \<Rightarrow> byte list list \<Rightarrow> jsstring list" where
  "pipeAnthropicSSEToPlainText_rebrand cfg chunks =
     read_loop (handle_frame_rebrand cfg) new_TextDecoder [] chunks"

section \<open>Request normalization\<close>

text \<open>Truthiness of a parsed JSON value (\<open>!m\<close> is its negation).\<close>

fun truthy :: "json \<Rightarrow> bool" where
  "truthy JNull = False"
| "truthy (JBool b) = b"
| "truthy (JNumber n) = (n \<noteq> NaN \<and> n \<noteq> Fin 0)"
| "truthy (JString s) = (s \<noteq> [])"
| "truthy (JArray xs) = True"
| "truthy (JObject kvs) = True"

text \<open>The normalized message \<open>{ role, content: [{ type: "text", text }] }\<close>.\<close>

record content_block =
  block_type :: jsstring
  block_text :: jsstring

record message =
  role :: jsstring
  content :: "content_block list"

text \<open>
  \<^verbatim>\<open>
  function normalizeMessages(messages) {
    if (!Array.isArray(messages)) return null;
    const out = [];
    for (const m of messages) {
      if (!m || (m.role !== "user" && m.role !== "assistant")) continue;
      const text = safeString(m.content, 12000).trim();
      if (!text) continue;
      out.push({ role: m.role, content: [{ type: "text", text }] });
    }
    return out.length ? out : null;
  }
  \<close>
  The loop is \<open>normalize_loop\<close>, with \<open>out\<close> as accumulator; an exception thrown by
  \<open>String\<close> leaves the function (\<open>Inl\<close>).
\<close>

definition role_of :: "json \<Rightarrow> jsstring option" where
  "role_of m =
     (case get_prop (Some m) (js ''role'') of
        Some (JString r) \<Rightarrow> if r = js ''user'' \<or> r = js ''assistant'' then Some r else None
      | _ \<Rightarrow> None)"

fun normalize_loop ::
  "(jsnum \<Rightarrow> jsstring) \<Rightarrow> json list \<Rightarrow> message list \<Rightarrow> js_error + message list" where
  "normalize_loop num [] out = Inr out"
| "normalize_loop num (m # ms) out =
     (if \<not> truthy m then normalize_loop num ms out
      else case role_of m of
        None \<Rightarrow> normalize_loop num ms out
      | Some r \<Rightarrow>
          (case safeString num (get_prop (Some m) (js ''content'')) 12000 of
             Inl e \<Rightarrow> Inl e
           | Inr s \<Rightarrow>
               (let text = trim s in
                if text = [] then normalize_loop num ms out
                else normalize_loop num ms
                       (out @ [\<lparr>role = r,
                                content = [\<lparr>block_type = js ''text'', block_text = text\<rparr>]\<rparr>]))))"

fun normalizeMessages ::
  "(jsnum \<Rightarrow> jsstring) \<Rightarrow> json option \<Rightarrow> js_error + message list option" where
  "normalizeMessages num (Some (JArray ms)) =
     (case normalize_loop num ms [] of
        Inl e \<Rightarrow> Inl e
      | Inr out \<Rightarrow> Inr (if out \<noteq> [] then Some out else None))"
| "normalizeMessages num _ = Inr None"

text \<open>What the data model requires of a normalized message.\<close>

definition valid_message :: "message \<Rightarrow> bool" where
  "valid_message m \<longleftrightarrow>
     (role m = js ''user'' \<or> role m = js ''assistant'')
     \<and> (case content m of
          [b] \<Rightarrow> block_type b = js ''text'' \<and> block_text b \<noteq> []
                 \<and> trim (block_text b) = block_text b \<and> length (block_text b) \<le> 12000
        | _ \<Rightarrow> False)"

section \<open>Numeric fields\<close>

fun Math_max :: "jsnum \<Rightarrow> jsnum \<Rightarrow> jsnum" where
  "Math_max NaN _ = NaN"
| "Math_max _ NaN = NaN"
| "Math_max PosInf _ = PosInf"
| "Math_max _ PosInf = PosInf"
| "Math_max NegInf b = b"
| "Math_max a NegInf = a"
| "Math_max (Fin a) (Fin b) = Fin (max a b)"

fun Math_min :: "jsnum \<Rightarrow> jsnum \<Rightarrow> jsnum" where
  "Math_min NaN _ = NaN"
| "Math_min _ NaN = NaN"
| "Math_min NegInf _ = NegInf"
| "Math_min _ NegInf = NegInf"
| "Math_min PosInf b = b"
| "Math_min a PosInf = a"
| "Math_min (Fin a) (Fin b) = Fin (min a b)"

fun Math_floor :: "jsnum \<Rightarrow> jsnum" where
  "Math_floor (Fin a) = Fin (of_int \<lfloor>a\<rfloor>)"
| "Math_floor x = x"

text \<open>
  \<^verbatim>\<open>
  function clampNumber(n, min, max, fallback) {
    if (typeof n !== "number" || Number.isNaN(n)) return fallback;
    return Math.min(max, Math.max(min, n));
  }
  \<close>
\<close>

fun clampNumber :: "json option \<Rightarrow> jsnum \<Rightarrow> jsnum \<Rightarrow> jsnum \<Rightarrow> jsnum" where
  "clampNumber (Some (JNumber n)) mn mx fallback =
     (if n = NaN then fallback else Math_min mx (Math_max mn n))"
| "clampNumber _ mn mx fallback = fallback"

text \<open>
  The two numeric fields of the route, both variants:
  \<^verbatim>\<open>
  const temperature = clampNumber(body.temperature, 0, 1, 0.3);
  const max_tokens = Math.floor(clampNumber(body.max_tokens, 64, 1500, 800));
  \<close>
\<close>

definition temperature_of :: "json \<Rightarrow> jsnum" where
  "temperature_of body =
     clampNumber (get_prop (Some body) (js ''temperature'')) (Fin 0) (Fin 1) (Fin 0.3)"

definition max_tokens_of :: "json \<Rightarrow> jsnum" where
  "max_tokens_of body =
     Math_floor (clampNumber (get_prop (Some body) (js ''max_tokens'')) (Fin 64) (Fin 1500) (Fin 800))"

definition is_number :: "json option \<Rightarrow> bool" where
  "is_number v = (case v of Some (JNumber n) \<Rightarrow> True | _ \<Rightarrow> False)"

section \<open>The HTTP response\<close>

text \<open>
  The part of Node's \<open>http.ServerResponse\<close> and of Express's \<open>res\<close> that the routes
  use. \<open>statusCode\<close> and \<open>headers\<close> are what the handler has set; \<open>sent_status\<close>,
  \<open>sent_headers\<close> and \<open>sent_body\<close> are what has gone to the client. The status line and
  the headers go out once, with the values set at that moment: at \<open>flushHeaders\<close>, or
  at the first \<open>write\<close>, \<open>end\<close> or \<open>json\<close>. Afterwards \<open>status\<close> still assigns
  \<open>statusCode\<close>, which the client no longer sees, and \<open>setHeader\<close> throws.
\<close>

datatype body_part = Text jsstring | Json json

record response =
  statusCode :: nat
  headers :: "(string \<times> string) list"
  headersSent :: bool
  sent_status :: "nat option"
  sent_headers :: "(string \<times> string) list"
  sent_body :: "body_part list"
  writableEnded :: bool

datatype handler_error = Thrown js_error | ERR_HTTP_HEADERS_SENT

definition send_head :: "response \<Rightarrow> response" where
  "send_head r =
     (if headersSent r then r
      else r\<lparr>headersSent := True, sent_status := Some (statusCode r), sent_headers := headers r\<rparr>)"

definition res_setHeader :: "string \<Rightarrow> string \<Rightarrow> response \<Rightarrow> handler_error + response" where
  "res_setHeader k v r =
     (if headersSent r then Inl ERR_HTTP_HEADERS_SENT
      else Inr (r\<lparr>headers := filter (\<lambda>h. fst h \<noteq> k) (headers r) @ [(k, v)]\<rparr>))"

definition res_flushHeaders :: "response \<Rightarrow> response" where
  "res_flushHeaders r = send_head r"

definition res_status :: "nat \<Rightarrow> response \<Rightarrow> response" where
  "res_status n r = r\<lparr>statusCode := n\<rparr>"

definition res_write :: "response \<Rightarrow> jsstring \<Rightarrow> response" where
  "res_write r chunk = (send_head r)\<lparr>sent_body := sent_body (send_head r) @ [Text chunk]\<rparr>"

definition res_end :: "jsstring option \<Rightarrow> response \<Rightarrow> response" where
  "res_end chunk r =
     (send_head r)\<lparr>sent_body := sent_body (send_head r)
                       @ (case chunk of None \<Rightarrow> [] | Some c \<Rightarrow> [Text c]),
                   writableEnded := True\<rparr>"

text \<open>\<open>res.json(v)\<close>: the serialized value as the whole body, typed as JSON.\<close>

definition res_json :: "json \<Rightarrow> response \<Rightarrow> handler_error + response" where
  "res_json v r =
     (if headersSent r then Inl ERR_HTTP_HEADERS_SENT
      else Inr ((send_head
             (if map_of (headers r) ''Content-Type'' = None
              then r\<lparr>headers := headers r @ [(''Content-Type'', ''application/json; charset=utf-8'')]\<rparr>
              else r))
           \<lparr>sent_body := sent_body r @ [Json v], writableEnded := True\<rparr>))"

text \<open>
  \<^verbatim>\<open>
  res.setHeader("Content-Type", "text/plain; charset=utf-8");
  res.setHeader("Cache-Control", "no-cache, no-transform");
  res.setHeader("X-Accel-Buffering", "no");
  res.flushHeaders?.();
  \<close>
\<close>

definition start_streaming :: "response \<Rightarrow> handler_error + response" where
  "start_streaming r =
     (case res_setHeader ''Content-Type'' ''text/plain; charset=utf-8'' r of
        Inl e \<Rightarrow> Inl e
      | Inr r1 \<Rightarrow>
          (case res_setHeader ''Cache-Control'' ''no-cache, no-transform'' r1 of
             Inl e \<Rightarrow> Inl e
           | Inr r2 \<Rightarrow>
               (case res_setHeader ''X-Accel-Buffering'' ''no'' r2 of
                  Inl e \<Rightarrow> Inl e
                | Inr r3 \<Rightarrow> Inr (res_flushHeaders r3))))"

section \<open>The route\<close>

text \<open>
  What the handler of \<open>POST /api/chat/stream\<close> receives: the request (its id and its
  parsed body), a response on which nothing has been sent yet (the headers that the
  middleware has set are left out) and, as the answer of the one \<open>fetch\<close> it may
  issue, either a rejection or an upstream response. An upstream response has a status (\<open>ok\<close> means 200 to 299),
  a body that is absent or delivers chunks and ends, and the text that
  \<open>upstream.text()\<close> resolves to (\<open>None\<close> when it rejects).
\<close>

record request =
  requestId :: jsstring
  req_body :: "json option"

record upstream_response =
  up_status :: nat
  up_body :: "byte list list option"
  up_text :: "jsstring option"

datatype fetch_result = Rejects | Resolves upstream_response

definition up_ok :: "upstream_response \<Rightarrow> bool" where
  "up_ok u \<longleftrightarrow> 200 \<le> up_status u \<and> up_status u \<le> 299"

text \<open>The body of the POST to \<open>https://api.anthropic.com/v1/messages\<close> and its request id.\<close>

record upstream_request =
  rq_request_id :: jsstring
  rq_model :: jsstring
  rq_system :: jsstring
  rq_messages :: "message list"
  rq_max_tokens :: jsnum
  rq_temperature :: jsnum

datatype log_entry =
    Upstream_failure jsstring nat jsstring
  | Handler_failure jsstring handler_error

text \<open>The effects of one request: the response, the upstream calls made, the error log.\<close>

record world =
  res :: response
  upstream_calls :: "upstream_request list"
  error_log :: "log_entry list"

definition fresh_response :: response where
  "fresh_response = \<lparr>statusCode = 200, headers = [], headersSent = False, sent_status = None,
                      sent_headers = [], sent_body = [], writableEnded = False\<rparr>"

definition fresh_world :: world where
  "fresh_world = \<lparr>res = fresh_response, upstream_calls = [], error_log = []\<rparr>"

definition ALLOWED_MODELS :: "jsstring list" where
  "ALLOWED_MODELS = [js ''claude-haiku-4-5'', js ''claude-sonnet-4-5'', js ''claude-opus-4-5'']"

text \<open>\<open>ALLOWED_MODELS.has(body.model) ? body.model : DEFAULT_MODEL\<close>\<close>

definition requestedModel :: "config \<Rightarrow> json \<Rightarrow> jsstring" where
  "requestedModel cfg body =
     (case get_prop (Some body) (js ''model'') of
        Some (JString m) \<Rightarrow> if m \<in> set ALLOWED_MODELS then m else DEFAULT_MODEL cfg
      | _ \<Rightarrow> DEFAULT_MODEL cfg)"

definition default_system_redact :: jsstring where
  "default_system_redact =
     js ''You are a helpful assistant. Do not mention any underlying model provider. If asked what you are, say you are a custom AI assistant.''"

definition brand_sentence :: "config \<Rightarrow> jsstring" where
  "brand_sentence cfg = js ''I am '' @ BRAND_MODEL cfg @ js '', made by '' @ BRAND_MAKER cfg @ js ''.''"

definition default_system_rebrand :: "config \<Rightarrow> jsstring" where
  "default_system_rebrand cfg =
     js ''You are '' @ BRAND_MODEL cfg @ js '', made by '' @ BRAND_MAKER cfg @ js ''.'' @ [0xA]
     @ js ''Do not mention any underlying model provider.'' @ [0xA]
     @ js ''If asked what you are, reply exactly: '' @ [0x22] @ brand_sentence cfg @ [0x22]"

text \<open>
  \<^verbatim>\<open>
  function isIdentityProbe(normalizedMessages) {
    const last = normalizedMessages?.at(-1)?.content?.[0]?.text ?? "";
    return /\b(who (are|made|built) you|what (model|llm) are you|which model|are you (claude|chatgpt|gpt)|anthropic|openai|claude|chatgpt|gpt)\b/i.test(last);
  }
  \<close>
\<close>

definition rx_probe :: regex where
  "rx_probe =
     Seq WordB (Seq (Group (alts
       [Seq (Lit (js ''who ''))
            (Seq (Group (alts [Lit (js ''are''), Lit (js ''made''), Lit (js ''built'')]))
                 (Lit (js '' you''))),
        Seq (Lit (js ''what ''))
            (Seq (Group (alts [Lit (js ''model''), Lit (js ''llm'')])) (Lit (js '' are you''))),
        Lit (js ''which model''),
        Seq (Lit (js ''are you ''))
            (Group (alts [Lit (js ''claude''), Lit (js ''chatgpt''), Lit (js ''gpt'')])),
        Lit (js ''anthropic''), Lit (js ''openai''), Lit (js ''claude''), Lit (js ''chatgpt''),
        Lit (js ''gpt'')])) WordB)"

definition last_text :: "message list \<Rightarrow> jsstring" where
  "last_text normalizedMessages =
     (case normalizedMessages of
        [] \<Rightarrow> []
      | _ \<Rightarrow> (case content (last normalizedMessages) of [] \<Rightarrow> [] | b # _ \<Rightarrow> block_text b))"

definition isIdentityProbe :: "message list \<Rightarrow> bool" where
  "isIdentityProbe normalizedMessages = regex_test rx_probe (last_text normalizedMessages)"

definition invalid_messages :: json where
  "invalid_messages = JObject [(js ''error'', JString (js ''Invalid messages format''))]"

text \<open>
  The part of the handler after the identity check, the same in both variants but
  for the default system prompt and the pipeline: the upstream request is built, the
  streaming headers are set and flushed, the request is sent, and the answer is
  either reported (\<open>res.status(502).end("Upstream error")\<close>) or piped to the client.
  The first component of the result is the exception that left the \<open>try\<close> block, if any.
\<close>

definition forward_upstream ::
  "(byte list list \<Rightarrow> jsstring list) \<Rightarrow> jsstring \<Rightarrow> (jsnum \<Rightarrow> jsstring) \<Rightarrow> config
     \<Rightarrow> request \<Rightarrow> json \<Rightarrow> message list \<Rightarrow> fetch_result \<Rightarrow> world
     \<Rightarrow> handler_error option \<times> world" where
  "forward_upstream pipe default_system num cfg req body normalized answer w =
     (case safeString num (get_prop (Some body) (js ''system'')) 4000 of
        Inl e \<Rightarrow> (Some (Thrown e), w)
      | Inr sys \<Rightarrow>
          (case start_streaming (res w) of
             Inl e \<Rightarrow> (Some e, w)
           | Inr r \<Rightarrow>
               (let call = \<lparr>rq_request_id = requestId req,
                            rq_model = requestedModel cfg body,
                            rq_system = (if sys \<noteq> [] then sys else default_system),
                            rq_messages = normalized,
                            rq_max_tokens = max_tokens_of body,
                            rq_temperature = temperature_of body\<rparr>;
                    w1 = w\<lparr>res := r, upstream_calls := upstream_calls w @ [call]\<rparr>
                in case answer of
                     Rejects \<Rightarrow> (Some (Thrown FetchError), w1)
                   | Resolves upstream \<Rightarrow>
                       (case (if up_ok upstream then up_body upstream else None) of
                          None \<Rightarrow>
                            (None,
                             w1\<lparr>error_log := error_log w1 @
                                   [Upstream_failure (requestId req) (up_status upstream)
                                      (case up_text upstream of
                                         None \<Rightarrow> [] | Some errText \<Rightarrow> take 5000 errText)],
                                res := res_end (Some (js ''Upstream error'')) (res_status 502 r)\<rparr>)
                        | Some chunks \<Rightarrow>
                            (None, w1\<lparr>res := res_end None (foldl res_write r (pipe chunks))\<rparr>)))))"

text \<open>The \<open>try\<close> block of the redacting variant (\<open>claude-chat/server.js\<close>).\<close>

definition try_route_redact ::
  "(jsnum \<Rightarrow> jsstring) \<Rightarrow> config \<Rightarrow> request \<Rightarrow> fetch_result \<Rightarrow> world
     \<Rightarrow> handler_error option \<times> world" where
  "try_route_redact num cfg req answer w =
     (let body = nullish_or (req_body req) (JObject [])
      in case normalizeMessages num (get_prop (Some body) (js ''messages'')) of
           Inl e \<Rightarrow> (Some (Thrown e), w)
         | Inr None \<Rightarrow>
             (case res_json invalid_messages (res_status 400 (res w)) of
                Inl e \<Rightarrow> (Some e, w\<lparr>res := res_status 400 (res w)\<rparr>)
              | Inr r \<Rightarrow> (None, w\<lparr>res := r\<rparr>))
         | Inr (Some normalized) \<Rightarrow>
             forward_upstream pipeAnthropicSSEToPlainText_redact default_system_redact
               num cfg req body normalized answer w)"

text \<open>
  The \<open>try\<close> block of the rebranding variant, with the identity check before anything
  is sent upstream:
  \<^verbatim>\<open>
  if (isIdentityProbe(normalized)) {
    res.setHeader(...); res.setHeader(...); res.setHeader(...);
    res.flushHeaders?.();
    res.end(`I am ${BRAND_MODEL}, made by ${BRAND_MAKER}.`);
    return;
  }
  \<close>
\<close>

definition try_route_rebrand ::
  "(jsnum \<Rightarrow> jsstring) \<Rightarrow> config \<Rightarrow> request \<Rightarrow> fetch_result \<Rightarrow> world
     \<Rightarrow> handler_error option \<times> world" where
  "try_route_rebrand num cfg req answer w =
     (let body = nullish_or (req_body req) (JObject [])
      in case normalizeMessages num (get_prop (Some body) (js ''messages'')) of
           Inl e \<Rightarrow> (Some (Thrown e), w)
         | Inr None \<Rightarrow>
             (case res_json invalid_messages (res_status 400 (res w)) of
                Inl e \<Rightarrow> (Some e, w\<lparr>res := res_status 400 (res w)\<rparr>)
              | Inr r \<Rightarrow> (None, w\<lparr>res := r\<rparr>))
         | Inr (Some normalized) \<Rightarrow>
             if isIdentityProbe normalized then
               (case start_streaming (res w) of
                  Inl e \<Rightarrow> (Some e, w)
                | Inr r \<Rightarrow> (None, w\<lparr>res := res_end (Some (brand_sentence cfg)) r\<rparr>))
             else
               forward_upstream (pipeAnthropicSSEToPlainText_rebrand cfg)
                 (default_system_rebrand cfg) num cfg req body normalized answer w)"

text \<open>
  The \<open>catch\<close> block, the same in both variants:
  \<^verbatim>\<open>
  console.error(JSON.stringify({ rid, error: String(e?.message ?? e) }));
  if (!res.headersSent) res.status(500);
  res.end("Server error");
  \<close>
\<close>

definition catch_block :: "request \<Rightarrow> handler_error \<Rightarrow> world \<Rightarrow> world" where
  "catch_block req e w =
     w\<lparr>error_log := error_log w @ [Handler_failure (requestId req) e],
       res := res_end (Some (js ''Server error''))
                (if \<not> headersSent (res w) then res_status 500 (res w) else res w)\<rparr>"

definition route_redact ::
  "(jsnum \<Rightarrow> jsstring) \<Rightarrow> config \<Rightarrow> request \<Rightarrow> fetch_result \<Rightarrow> world" where
  "route_redact num cfg req answer =
     (case try_route_redact num cfg req answer fresh_world of
        (None, w) \<Rightarrow> w
      | (Some e, w) \<Rightarrow> catch_block req e w)"

definition route_rebrand ::
  "(jsnum \<Rightarrow> jsstring) \<Rightarrow> config \<Rightarrow> request \<Rightarrow> fetch_result \<Rightarrow> world" where
  "route_rebrand num cfg req answer =
     (case try_route_rebrand num cfg req answer fresh_world of
        (None, w) \<Rightarrow> w
      | (Some e, w) \<Rightarrow> catch_block req e w)"

section \<open>Vocabulary of the properties\<close>

text \<open>A parsed payload is a text delta event; the string in its \<open>delta.text\<close>, if any.\<close>

definition is_delta_event :: "json \<Rightarrow> bool" where
  "is_delta_event payload \<longleftrightarrow>
     get_prop (Some payload) (js ''type'') = Some (JString (js ''content_block_delta''))"

definition delta_text :: "json \<Rightarrow> jsstring option" where
  "delta_text payload =
     (case get_prop (get_prop (Some payload) (js ''delta'')) (js ''text'') of
        Some (JString t) \<Rightarrow> Some t
      | _ \<Rightarrow> None)"

text \<open>The payload of a data line, as the loop body computes it.\<close>

definition payload_of :: "jsstring \<Rightarrow> js_error + json" where
  "payload_of dataLine = JSON_parse (trim (drop (length (js ''data: '')) dataLine))"

definition is_data_line :: "jsstring \<Rightarrow> bool" where
  "is_data_line line = startsWith line (js ''data: '')"

text \<open>A frame made of the given lines.\<close>

fun join_lines :: "jsstring list \<Rightarrow> jsstring" where
  "join_lines [] = []"
| "join_lines [l] = l"
| "join_lines (l # ls) = l @ [0xA] @ join_lines ls"

text \<open>What the client has received.\<close>

definition received_body :: "world \<Rightarrow> body_part list" where
  "received_body w = sent_body (res w)"

definition received_status :: "world \<Rightarrow> nat option" where
  "received_status w = sent_status (res w)"

definition received_headers :: "world \<Rightarrow> (string \<times> string) list" where
  "received_headers w = sent_headers (res w)"

definition messages_of :: "request \<Rightarrow> json option" where
  "messages_of req = get_prop (Some (nullish_or (req_body req) (JObject []))) (js ''messages'')"

section \<open>Sample inputs\<close>

definition sample_config :: config where
  "sample_config = \<lparr>DEFAULT_MODEL = js ''claude-haiku-4-5'', BRAND_MODEL = js ''ClaudeX'',
                      BRAND_MAKER = js ''M Alkindi''\<rparr>"

text \<open>The data line of a text delta, and a data line whose payload is not JSON.\<close>

definition delta_line :: "string \<Rightarrow> string" where
  "delta_line t = ''data: {\"type\":\"content_block_delta\",\"delta\":{\"text\":\"'' @ t @ ''\"}}''"

definition malformed_line :: string where
  "malformed_line = ''data: {\"type\":\"content_block_delta\",''"

text \<open>Text delta payloads with a given \<open>delta.text\<close>, and data lines whose text is not a string or is missing.\<close>

definition delta_payload :: "json \<Rightarrow> json" where
  "delta_payload v =
     JObject [(js ''type'', JString (js ''content_block_delta'')),
              (js ''delta'', JObject [(js ''text'', v)])]"

definition numeric_text_line :: string where
  "numeric_text_line = ''data: {\"type\":\"content_block_delta\",\"delta\":{\"text\":5}}''"

definition no_delta_line :: string where
  "no_delta_line = ''data: {\"type\":\"content_block_delta\"}''"

text \<open>
  A stream of two frames and an unfinished third, cut inside the two bytes of the
  letter e with acute accent and inside the blank line that ends the first frame.
\<close>

definition stream_part1 :: "byte list" where
  "stream_part1 =
     ascii_bytes ''event: content_block_delta'' @ [0xA]
     @ ascii_bytes ''data: {\"type\":\"content_block_delta\",\"delta\":{\"text\":\"caf'' @ [0xC3]"

definition stream_part2 :: "byte list" where
  "stream_part2 = [0xA9] @ ascii_bytes ''\"}}'' @ [0xA]"

definition stream_part3 :: "byte list" where
  "stream_part3 =
     [0xA] @ ascii_bytes ''data: {\"type\":\"error\"}'' @ [0xA, 0xA] @ ascii_bytes ''data: [DONE]''"

text \<open>One frame with two text deltas, as one chunk.\<close>

definition two_deltas_one_frame :: "byte list" where
  "two_deltas_one_frame =
     ascii_bytes (delta_line ''Hi'') @ [0xA] @ ascii_bytes (delta_line '' there'') @ [0xA, 0xA]"

text \<open>One frame with a malformed data line between two text deltas, and one with it first.\<close>

definition malformed_between :: "byte list" where
  "malformed_between =
     ascii_bytes (delta_line ''Hi'') @ [0xA] @ ascii_bytes malformed_line @ [0xA]
     @ ascii_bytes (delta_line '' there'') @ [0xA, 0xA]"

definition malformed_first :: "byte list" where
  "malformed_first =
     ascii_bytes malformed_line @ [0xA] @ ascii_bytes (delta_line ''Hi'') @ [0xA, 0xA]"

text \<open>Requests with one user message, and an upstream that answers 503 without a body.\<close>

definition user_request :: "string \<Rightarrow> request" where
  "user_request t =
     \<lparr>requestId = js ''rid-1'',
      req_body = Some (JObject [(js ''messages'',
        JArray [JObject [(js ''role'', JString (js ''user'')),
                         (js ''content'', JString (js t))]])])\<rparr>"

definition upstream_503 :: fetch_result where
  "upstream_503 = Resolves \<lparr>up_status = 503, up_body = None, up_text = Some (js ''overloaded'')\<rparr>"

definition streaming_headers :: "(string \<times> string) list" where
  "streaming_headers =
     [(''Content-Type'', ''text/plain; charset=utf-8''),
      (''Cache-Control'', ''no-cache, no-transform''),
      (''X-Accel-Buffering'', ''no'')]"

section \<open>Properties\<close>

subsection \<open>Numeric-field normalization\<close>

lemma clampNumber_fin:
  "clampNumber (Some (JNumber (Fin r))) (Fin lo) (Fin hi) d = Fin (min hi (max lo r))"
  by simp

lemma clampNumber_not_number:
  "\<not> is_number v \<Longrightarrow> clampNumber v lo hi d = d"
  by (cases "(v, lo, hi, d)" rule: clampNumber.cases) (simp_all add: is_number_def)

text \<open>
  C7. Let \<open>t\<close> be the body's \<open>temperature\<close> and \<open>m\<close> its \<open>max_tokens\<close>. A finite
  numeric \<open>t = r\<close> becomes \<open>min 1 (max 0 r)\<close>, which lies in [0, 1]; the infinities
  become the nearer bound; anything that is not a number, or is NaN, becomes the
  default 0.3. A finite numeric \<open>m = r\<close> becomes the floor of \<open>min 1500 (max 64 r)\<close>,
  an integer in [64, 1500]; the infinities become the nearer bound; anything that is
  not a number becomes the default 800.
\<close>

theorem numeric_fields_clamped:
  fixes body :: json and r :: real
  defines "t \<equiv> get_prop (Some body) (js ''temperature'')"
    and "m \<equiv> get_prop (Some body) (js ''max_tokens'')"
  shows "(t = Some (JNumber (Fin r)) \<longrightarrow>
            temperature_of body = Fin (min 1 (max 0 r))
            \<and> 0 \<le> min 1 (max 0 r) \<and> min 1 (max 0 r) \<le> 1)
       \<and> (t = Some (JNumber PosInf) \<longrightarrow> temperature_of body = Fin 1)
       \<and> (t = Some (JNumber NegInf) \<longrightarrow> temperature_of body = Fin 0)
       \<and> (\<not> is_number t \<or> t = Some (JNumber NaN) \<longrightarrow> temperature_of body = Fin 0.3)
       \<and> (m = Some (JNumber (Fin r)) \<longrightarrow>
            max_tokens_of body = Fin (of_int \<lfloor>min 1500 (max 64 r)\<rfloor>)
            \<and> 64 \<le> \<lfloor>min 1500 (max 64 r)\<rfloor> \<and> \<lfloor>min 1500 (max 64 r)\<rfloor> \<le> 1500)
       \<and> (m = Some (JNumber PosInf) \<longrightarrow> max_tokens_of body = Fin 1500)
       \<and> (m = Some (JNumber NegInf) \<longrightarrow> max_tokens_of body = Fin 64)
       \<and> (\<not> is_number m \<longrightarrow> max_tokens_of body = Fin 800)"
proof -
  have fl: "64 \<le> \<lfloor>min 1500 (max 64 r)\<rfloor> \<and> \<lfloor>min 1500 (max 64 r)\<rfloor> \<le> 1500"
    by (simp add: le_floor_iff floor_le_iff min_def max_def)
  show ?thesis
    unfolding temperature_of_def max_tokens_of_def t_def [symmetric] m_def [symmetric]
    using fl clampNumber_not_number [of t] clampNumber_not_number [of m]
    by (auto simp: clampNumber_fin)
qed

text \<open>On the samples -5, 0.5, 2, "x", absent and 10, 500, 5000, 99.7, "x".\<close>

theorem numeric_fields_clamped_witness:
  "temperature_of (JObject [(js ''temperature'', JNumber (Fin (-5)))]) = Fin 0
   \<and> temperature_of (JObject [(js ''temperature'', JNumber (Fin 0.5))]) = Fin 0.5
   \<and> temperature_of (JObject [(js ''temperature'', JNumber (Fin 2))]) = Fin 1
   \<and> temperature_of (JObject [(js ''temperature'', JString (js ''x''))]) = Fin 0.3
   \<and> temperature_of (JObject []) = Fin 0.3
   \<and> max_tokens_of (JObject [(js ''max_tokens'', JNumber (Fin 10))]) = Fin 64
   \<and> max_tokens_of (JObject [(js ''max_tokens'', JNumber (Fin 500))]) = Fin 500
   \<and> max_tokens_of (JObject [(js ''max_tokens'', JNumber (Fin 5000))]) = Fin 1500
   \<and> max_tokens_of (JObject [(js ''max_tokens'', JNumber (Fin 99.7))]) = Fin 99
   \<and> max_tokens_of (JObject [(js ''max_tokens'', JString (js ''x''))]) = Fin 800"
  using numeric_fields_clamped [of "JObject [(js ''temperature'', JNumber (Fin (-5)))]" "-5"]
    numeric_fields_clamped [of "JObject [(js ''temperature'', JNumber (Fin 0.5))]" "0.5"]
    numeric_fields_clamped [of "JObject [(js ''temperature'', JNumber (Fin 2))]" "2"]
    numeric_fields_clamped [of "JObject [(js ''temperature'', JString (js ''x''))]" 0]
    numeric_fields_clamped [of "JObject []" 0]
    numeric_fields_clamped [of "JObject [(js ''max_tokens'', JNumber (Fin 10))]" 10]
    numeric_fields_clamped [of "JObject [(js ''max_tokens'', JNumber (Fin 500))]" 500]
    numeric_fields_clamped [of "JObject [(js ''max_tokens'', JNumber (Fin 5000))]" 5000]
    numeric_fields_clamped [of "JObject [(js ''max_tokens'', JNumber (Fin 99.7))]" "99.7"]
    numeric_fields_clamped [of "JObject [(js ''max_tokens'', JString (js ''x''))]" 0]
  by (simp add: is_number_def js_def)

subsection \<open>Message normalization\<close>

lemma dropWhile_id: "xs = [] \<or> \<not> P (hd xs) \<Longrightarrow> dropWhile P xs = xs"
  by (cases xs) auto

lemma dropWhile_hd: "dropWhile P xs = [] \<or> \<not> P (hd (dropWhile P xs))"
  by (induction xs) auto

lemma trim_no_leading: "dropWhile is_js_space (trim s) = trim s"
proof -
  define d where "d = dropWhile is_js_space s"
  define t where "t = rev (dropWhile is_js_space (rev d))"
  define r where "r = rev (takeWhile is_js_space (rev d))"
  have "rev (takeWhile is_js_space (rev d) @ dropWhile is_js_space (rev d)) = d"
    by (simp only: takeWhile_dropWhile_id rev_rev_ident)
  then have d: "d = t @ r"
    by (simp only: rev_append t_def r_def)
  have hd: "d = [] \<or> \<not> is_js_space (hd d)"
    unfolding d_def by (rule dropWhile_hd)
  have "t = [] \<or> \<not> is_js_space (hd t)"
  proof (cases t)
    case Nil
    then show ?thesis by simp
  next
    case (Cons a as)
    then show ?thesis using hd unfolding d by simp
  qed
  then have "dropWhile is_js_space t = t" by (rule dropWhile_id)
  then show ?thesis unfolding trim_def t_def d_def .
qed

lemma trim_idem: "trim (trim s) = trim s"
proof -
  have "dropWhile is_js_space (rev (trim s)) = rev (trim s)"
    by (simp add: trim_def)
  then have "rev (dropWhile is_js_space (rev (dropWhile is_js_space (trim s)))) = trim s"
    by (simp only: trim_no_leading rev_rev_ident)
  then show ?thesis
    unfolding trim_def [of "trim s"] .
qed

lemma length_trim: "length (trim s) \<le> length s"
proof -
  have "length (trim s) = length (dropWhile is_js_space (rev (dropWhile is_js_space s)))"
    by (simp add: trim_def)
  also have "\<dots> \<le> length (rev (dropWhile is_js_space s))"
    by (rule length_dropWhile_le)
  also have "\<dots> \<le> length s"
    by (simp add: length_dropWhile_le)
  finally show ?thesis .
qed

lemma safeString_length: "safeString num x mx = Inr s \<Longrightarrow> length s \<le> mx"
  by (auto simp: safeString_def split: sum.splits if_splits)

lemma role_of_Some: "role_of m = Some r \<Longrightarrow> r = js ''user'' \<or> r = js ''assistant''"
  by (auto simp: role_of_def split: option.splits json.splits if_splits)

lemma normalize_loop_valid:
  "normalize_loop num ms out = Inr outl \<Longrightarrow> \<forall>m \<in> set out. valid_message m
     \<Longrightarrow> \<forall>m \<in> set outl. valid_message m"
proof (induction ms arbitrary: out)
  case Nil
  then show ?case by simp
next
  case (Cons m ms)
  note IH = Cons.IH and p1 = Cons.prems(1) and p2 = Cons.prems(2)
  show ?case
  proof (cases "truthy m")
    case False
    with p1 have "normalize_loop num ms out = Inr outl" by simp
    then show ?thesis using p2 by (rule IH)
  next
    case True
    show ?thesis
    proof (cases "role_of m")
      case None
      with True p1 have "normalize_loop num ms out = Inr outl" by simp
      then show ?thesis using p2 by (rule IH)
    next
      case (Some r)
      from p1 True Some obtain s where
        s: "safeString num (get_prop (Some m) (js ''content'')) 12000 = Inr s"
        by (cases "safeString num (get_prop (Some m) (js ''content'')) 12000") simp_all
      show ?thesis
      proof (cases "trim s = []")
        case True
        with p1 \<open>truthy m\<close> Some s have "normalize_loop num ms out = Inr outl" by simp
        then show ?thesis using p2 by (rule IH)
      next
        case False
        define msg where
          "msg = \<lparr>role = r, content = [\<lparr>block_type = js ''text'', block_text = trim s\<rparr>]\<rparr>"
        have "length (trim s) \<le> 12000"
          using length_trim [of s] safeString_length [OF s] by simp
        then have "valid_message msg"
          using False role_of_Some [OF Some] by (simp add: valid_message_def trim_idem msg_def)
        with p2 have v: "\<forall>m \<in> set (out @ [msg]). valid_message m"
          by simp
        have "normalize_loop num ms (out @ [msg]) = Inr outl"
          using p1 \<open>truthy m\<close> Some s False by (simp add: Let_def msg_def)
        then show ?thesis using v by (rule IH)
      qed
    qed
  qed
qed

text \<open>
  What normalizeMessages returns, when it returns: null or a non-empty list of
  messages with role user or assistant and a non-empty, trimmed text of at most
  12,000 code units.
\<close>

lemma normalizeMessages_returns_valid:
  assumes r: "normalizeMessages num v = Inr (Some out)"
  shows "out \<noteq> [] \<and> (\<forall>m \<in> set out. valid_message m)"
proof -
  from r obtain ms where v: "v = Some (JArray ms)"
    by (cases "(num, v)" rule: normalizeMessages.cases) simp_all
  from r v obtain outl where outl: "normalize_loop num ms [] = Inr outl"
    by (auto split: sum.splits)
  with r v have "out = outl" "outl \<noteq> []"
    by (auto split: if_splits)
  then show ?thesis
    using normalize_loop_valid [OF outl] by simp
qed

text \<open>
  C5. normalizeMessages does not return on every JSON input: on a user message whose
  content is an object with a member named \<open>toString\<close> the coercion to a string
  throws a TypeError, so the result is neither null nor a list and the element is not
  discarded silently.
\<close>

theorem normalizeMessages_throws_on_toString_member:
  "normalizeMessages num
     (Some (JArray [JObject [(js ''role'', JString (js ''user'')),
                             (js ''content'', JObject [(js ''toString'', JNumber (Fin 0))])]]))
   = Inl TypeError"
  by (simp add: role_of_def safeString_def js_def)

subsection \<open>The fuel of the JSON parser\<close>

lemma skip_ws_length: "length (skip_ws s) \<le> length s"
  by (simp add: skip_ws_def length_dropWhile_le)

lemma cons_result_Some:
  "cons_result u pr = Some (str, r) \<Longrightarrow> \<exists>str'. pr = Some (str', r) \<and> str = u # str'"
  by (auto simp: cons_result_def split: option.splits)

lemma parse_string_body_shorter:
  "parse_string_body s = Some (str, r) \<Longrightarrow> length r < length s"
proof (induction s arbitrary: str r rule: parse_string_body.induct)
  case 1
  then show ?case by simp
next
  case (2 c r0)
  show ?case
  proof (cases "c = 0x22")
    case True
    with "2.prems" show ?thesis by simp
  next
    case nq: False
    show ?thesis
    proof (cases "c = 0x5C")
      case False
      show ?thesis
      proof (cases "c < 0x20")
        case True
        with nq False "2.prems" show ?thesis by simp
      next
        case nc: False
        from "2.prems" nq False nc obtain str' where
          "parse_string_body r0 = Some (str', r)"
          by (auto dest: cons_result_Some)
        from "2.IH"(3) [OF nq False nc this] show ?thesis by simp
      qed
    next
      case bs: True
      show ?thesis
      proof (cases r0)
        case Nil
        with nq bs "2.prems" show ?thesis by simp
      next
        case (Cons e r')
        show ?thesis
        proof (cases "e = 0x75")
          case False
          from "2.prems" nq bs Cons False obtain u str' where
            u: "simple_escape e = Some u" and "parse_string_body r' = Some (str', r)"
            by (auto split: option.splits dest: cons_result_Some)
          from "2.IH"(2) [OF nq bs Cons False u this(2)] Cons show ?thesis by simp
        next
          case True
          from "2.prems" nq bs Cons True obtain h1 h2 h3 h4 r'' u str' where
            r': "r' = h1 # h2 # h3 # h4 # r''" and u: "hex4 h1 h2 h3 h4 = Some u"
            and p: "parse_string_body r'' = Some (str', r)"
            by (auto split: list.splits option.splits dest: cons_result_Some)
          from "2.IH"(1) [OF nq bs Cons True r' refl refl refl u p] Cons r' show ?thesis by simp
        qed
      qed
    qed
  qed
qed

lemma parse_exponent_length: "parse_exponent s = Some (e, r) \<Longrightarrow> length r \<le> length s"
  by (auto simp: parse_exponent_def Let_def split: list.splits if_splits
      intro: le_trans [OF length_dropWhile_le] le_SucI)

lemma parse_fraction_length: "parse_fraction s = Some (f, r) \<Longrightarrow> length r \<le> length s"
  by (auto simp: parse_fraction_def Let_def split: list.splits if_splits
      intro: le_trans [OF length_dropWhile_le] le_SucI)

lemma parse_number_shorter:
  assumes "parse_number s = Some (x, r)"
  shows "length r < length s"
proof -
  define neg where "neg = (case s of c # _ \<Rightarrow> c = 0x2D | [] \<Rightarrow> False)"
  define s1 where "s1 = (if neg then tl s else s)"
  define ds where "ds = (case s1 of c # _ \<Rightarrow> if c = 0x30 then [c] else takeWhile is_digit s1 | [] \<Rightarrow> [])"
  from assms have ds: "ds \<noteq> []"
    unfolding parse_number_def neg_def [symmetric] Let_def s1_def [symmetric] ds_def [symmetric]
    by (auto split: if_splits)
  from assms ds obtain f s2 e where
    f: "parse_fraction (drop (length ds) s1) = Some (f, s2)" and e: "parse_exponent s2 = Some (e, r)"
    unfolding parse_number_def neg_def [symmetric] Let_def s1_def [symmetric] ds_def [symmetric]
    by (auto split: if_splits option.splits)
  have "length ds \<le> length s1"
    unfolding ds_def using length_takeWhile_le [of is_digit s1]
    by (auto split: list.splits)
  moreover have "0 < length ds" using ds by simp
  ultimately have "length (drop (length ds) s1) < length s1"
    unfolding length_drop by arith
  moreover have "length s1 \<le> length s" by (simp add: s1_def)
  ultimately show ?thesis
    using parse_fraction_length [OF f] parse_exponent_length [OF e] by linarith
qed

text \<open>One step of each parser function, with the recursive calls named.\<close>

lemma parse_value_Suc_cases:
  assumes "parse_value (Suc n) s = Some (v, r)"
  obtains (scalar) "\<And>m. parse_value (Suc m) s = Some (v, r)" "length r < length s"
  | (object) c' r' where "length (c' # r') < length s"
      "parse_members n (c' # r') [] = Some (v, r)"
      "\<And>m. parse_value (Suc m) s = parse_members m (c' # r') []"
  | (array) c' r' where "length (c' # r') < length s"
      "parse_elements n (c' # r') [] = Some (v, r)"
      "\<And>m. parse_value (Suc m) s = parse_elements m (c' # r') []"
proof -
  from assms obtain c r0 where t: "skip_ws s = c # r0"
    by (cases "skip_ws s") auto
  have len: "length (c # r0) \<le> length s"
    using skip_ws_length [of s] t by simp
  show ?thesis
  proof (cases "c = 0x7B")
    case True
    from assms t True obtain c' r' where u: "skip_ws r0 = c' # r'"
      by (cases "skip_ws r0") auto
    have len': "length (c' # r') < length s"
      using skip_ws_length [of r0] u len by simp
    show ?thesis
    proof (cases "c' = 0x7D")
      case True
      with assms t \<open>c = 0x7B\<close> u have "r = r'" "\<And>m. parse_value (Suc m) s = Some (v, r)"
        by auto
      with len' show ?thesis by (intro scalar) auto
    next
      case False
      with assms t True u have "parse_members n (c' # r') [] = Some (v, r)"
        "\<And>m. parse_value (Suc m) s = parse_members m (c' # r') []"
        by auto
      with len' show ?thesis by (intro object)
    qed
  next
    case nb: False
    show ?thesis
    proof (cases "c = 0x5B")
      case True
      from assms t nb True obtain c' r' where u: "skip_ws r0 = c' # r'"
        by (cases "skip_ws r0") auto
      have len': "length (c' # r') < length s"
        using skip_ws_length [of r0] u len by simp
      show ?thesis
      proof (cases "c' = 0x5D")
        case True
        with assms t nb \<open>c = 0x5B\<close> u have "r = r'" "\<And>m. parse_value (Suc m) s = Some (v, r)"
          by auto
        with len' show ?thesis by (intro scalar) auto
      next
        case False
        with assms t nb True u have "parse_elements n (c' # r') [] = Some (v, r)"
          "\<And>m. parse_value (Suc m) s = parse_elements m (c' # r') []"
          by auto
        with len' show ?thesis by (intro array)
      qed
    next
      case na: False
      have same: "\<And>m. parse_value (Suc m) s = parse_value (Suc n) s"
        using t nb na by simp
      have "length r < length (c # r0)"
      proof (cases "c = 0x22")
        case True
        with assms t nb na obtain str where "parse_string_body r0 = Some (str, r)"
          by (auto split: option.splits)
        then show ?thesis using parse_string_body_shorter by fastforce
      next
        case nq: False
        show ?thesis
        proof (cases "startsWith (c # r0) (js ''true'') \<or> startsWith (c # r0) (js ''false'')
                      \<or> startsWith (c # r0) (js ''null'')")
          case True
          with assms t nb na nq have "r = drop 4 (c # r0) \<or> r = drop 5 (c # r0)"
            by (auto split: if_splits)
          then show ?thesis by auto
        next
          case False
          with assms t nb na nq obtain x where "parse_number (c # r0) = Some (x, r)"
            by (auto split: option.splits)
          then show ?thesis by (rule parse_number_shorter)
        qed
      qed
      with len same assms show ?thesis by (intro scalar) auto
    qed
  qed
qed

lemma skip_ws_Cons_length: "skip_ws s = c # r \<Longrightarrow> length r < length s"
  using skip_ws_length [of s] by simp

lemma parse_elements_Suc_cases:
  assumes "parse_elements (Suc n) s acc = Some (v, r)"
  obtains (last) v1 r1 where "parse_value n s = Some (v1, r1)" "length r < length r1"
      "\<And>m. parse_value m s = Some (v1, r1) \<Longrightarrow> parse_elements (Suc m) s acc = Some (v, r)"
  | (more) v1 r1 r' where "parse_value n s = Some (v1, r1)" "length r' < length r1"
      "parse_elements n r' (acc @ [v1]) = Some (v, r)"
      "\<And>m. parse_value m s = Some (v1, r1)
         \<Longrightarrow> parse_elements (Suc m) s acc = parse_elements m r' (acc @ [v1])"
proof -
  from assms obtain v1 r1 where v1: "parse_value n s = Some (v1, r1)"
    by (cases "parse_value n s") auto
  from assms v1 obtain c r' where t: "skip_ws r1 = c # r'"
    by (cases "skip_ws r1") auto
  have len: "length r' < length r1"
    using t by (rule skip_ws_Cons_length)
  show ?thesis
  proof (cases "c = 0x2C")
    case True
    with assms v1 t have "parse_elements n r' (acc @ [v1]) = Some (v, r)"
      "\<And>m. parse_value m s = Some (v1, r1)
         \<Longrightarrow> parse_elements (Suc m) s acc = parse_elements m r' (acc @ [v1])"
      by auto
    with v1 len show ?thesis by (intro more)
  next
    case False
    with assms v1 t have "r = r'"
      "\<And>m. parse_value m s = Some (v1, r1) \<Longrightarrow> parse_elements (Suc m) s acc = Some (v, r)"
      by (auto split: if_splits)
    with v1 len show ?thesis by (intro last) auto
  qed
qed

lemma parse_members_Suc_cases:
  assumes "parse_members (Suc n) s acc = Some (v, r)"
  obtains (last) r2 v1 r3 where "length r2 < length s" "parse_value n r2 = Some (v1, r3)"
      "length r < length r3"
      "\<And>m. parse_value m r2 = Some (v1, r3) \<Longrightarrow> parse_members (Suc m) s acc = Some (v, r)"
  | (more) r2 v1 r3 r4 k where "length r2 < length s" "parse_value n r2 = Some (v1, r3)"
      "length r4 < length r3"
      "parse_members n r4 (acc @ [(k, v1)]) = Some (v, r)"
      "\<And>m. parse_value m r2 = Some (v1, r3)
         \<Longrightarrow> parse_members (Suc m) s acc = parse_members m r4 (acc @ [(k, v1)])"
proof -
  from assms obtain c r0 where t: "skip_ws s = c # r0"
    by (cases "skip_ws s") auto
  from assms t have c: "c = 0x22"
    by (auto split: if_splits)
  from assms t c obtain k r1 where k: "parse_string_body r0 = Some (k, r1)"
    by (cases "parse_string_body r0") auto
  from assms t c k obtain c1 r2 where t1: "skip_ws r1 = c1 # r2"
    by (cases "skip_ws r1") auto
  from assms t c k t1 have c1: "c1 = 0x3A"
    by (auto split: if_splits)
  from assms t c k t1 c1 obtain v1 r3 where v1: "parse_value n r2 = Some (v1, r3)"
    by (cases "parse_value n r2") auto
  from assms t c k t1 c1 v1 obtain c3 r4 where t3: "skip_ws r3 = c3 # r4"
    by (cases "skip_ws r3") auto
  have len2: "length r2 < length s"
    using skip_ws_Cons_length [OF t] skip_ws_Cons_length [OF t1] parse_string_body_shorter [OF k]
    by simp
  have len4: "length r4 < length r3"
    using t3 by (rule skip_ws_Cons_length)
  show ?thesis
  proof (cases "c3 = 0x2C")
    case True
    with assms t c k t1 c1 v1 t3 have "parse_members n r4 (acc @ [(k, v1)]) = Some (v, r)"
      "\<And>m. parse_value m r2 = Some (v1, r3)
         \<Longrightarrow> parse_members (Suc m) s acc = parse_members m r4 (acc @ [(k, v1)])"
      by auto
    with v1 len2 len4 show ?thesis by (intro more)
  next
    case False
    with assms t c k t1 c1 v1 t3 have "r = r4"
      "\<And>m. parse_value m r2 = Some (v1, r3) \<Longrightarrow> parse_members (Suc m) s acc = Some (v, r)"
      by (auto split: if_splits)
    with v1 len2 len4 show ?thesis by (intro last) auto
  qed
qed

lemma parse_fuel:
  "(\<forall>s v r. parse_value n s = Some (v, r) \<longrightarrow>
      length r < length s
      \<and> (\<forall>m. 2 * (length s - length r) \<le> Suc m \<longrightarrow> parse_value m s = Some (v, r)))
   \<and> (\<forall>s acc v r. parse_elements n s acc = Some (v, r) \<longrightarrow>
      length r < length s
      \<and> (\<forall>m. 2 * (length s - length r) \<le> Suc m \<longrightarrow> parse_elements m s acc = Some (v, r)))
   \<and> (\<forall>s acc v r. parse_members n s acc = Some (v, r) \<longrightarrow>
      length r < length s
      \<and> (\<forall>m. 2 * (length s - length r) \<le> Suc m \<longrightarrow> parse_members m s acc = Some (v, r)))"
proof (induction n)
  case 0
  show ?case by simp
next
  case (Suc n)
  then have IHv: "\<And>s v r m. parse_value n s = Some (v, r) \<Longrightarrow> length r < length s"
    "\<And>s v r m. parse_value n s = Some (v, r) \<Longrightarrow> 2 * (length s - length r) \<le> Suc m
       \<Longrightarrow> parse_value m s = Some (v, r)"
    and IHe: "\<And>s acc v r m. parse_elements n s acc = Some (v, r) \<Longrightarrow> length r < length s"
    "\<And>s acc v r m. parse_elements n s acc = Some (v, r) \<Longrightarrow> 2 * (length s - length r) \<le> Suc m
       \<Longrightarrow> parse_elements m s acc = Some (v, r)"
    and IHm: "\<And>s acc v r m. parse_members n s acc = Some (v, r) \<Longrightarrow> length r < length s"
    "\<And>s acc v r m. parse_members n s acc = Some (v, r) \<Longrightarrow> 2 * (length s - length r) \<le> Suc m
       \<Longrightarrow> parse_members m s acc = Some (v, r)"
    by blast+
  have V: "length r < length s
      \<and> (\<forall>m. 2 * (length s - length r) \<le> Suc m \<longrightarrow> parse_value m s = Some (v, r))"
    if p: "parse_value (Suc n) s = Some (v, r)" for s v r
    using p
  proof (cases rule: parse_value_Suc_cases)
    case scalar
    have "parse_value m s = Some (v, r)" if "2 * (length s - length r) \<le> Suc m" for m
    proof -
      from that scalar(2) obtain m' where "m = Suc m'" by (cases m) auto
      with scalar(1) show ?thesis by simp
    qed
    with scalar(2) show ?thesis by blast
  next
    case (object c' r')
    have l: "length r < length (c' # r')" using object(2) by (rule IHm(1))
    have "parse_value m s = Some (v, r)" if b: "2 * (length s - length r) \<le> Suc m" for m
    proof -
      from b l object(1) obtain m' where m: "m = Suc m'" by (cases m) auto
      have "2 * (length (c' # r') - length r) \<le> Suc m'"
        using b l object(1) m by simp
      with object(2) have "parse_members m' (c' # r') [] = Some (v, r)" by (rule IHm(2))
      with object(3) m show ?thesis by simp
    qed
    with l object(1) show ?thesis by auto
  next
    case (array c' r')
    have l: "length r < length (c' # r')" using array(2) by (rule IHe(1))
    have "parse_value m s = Some (v, r)" if b: "2 * (length s - length r) \<le> Suc m" for m
    proof -
      from b l array(1) obtain m' where m: "m = Suc m'" by (cases m) auto
      have "2 * (length (c' # r') - length r) \<le> Suc m'"
        using b l array(1) m by simp
      with array(2) have "parse_elements m' (c' # r') [] = Some (v, r)" by (rule IHe(2))
      with array(3) m show ?thesis by simp
    qed
    with l array(1) show ?thesis by auto
  qed
  have E: "length r < length s
      \<and> (\<forall>m. 2 * (length s - length r) \<le> Suc m \<longrightarrow> parse_elements m s acc = Some (v, r))"
    if p: "parse_elements (Suc n) s acc = Some (v, r)" for s acc v r
    using p
  proof (cases rule: parse_elements_Suc_cases)
    case (last v1 r1)
    have l1: "length r1 < length s" using last(1) by (rule IHv(1))
    have "parse_elements m s acc = Some (v, r)" if b: "2 * (length s - length r) \<le> Suc m" for m
    proof -
      from b l1 last(2) obtain m' where m: "m = Suc m'" by (cases m) auto
      have "2 * (length s - length r1) \<le> Suc m'"
        using b l1 last(2) m by simp
      with last(1) have "parse_value m' s = Some (v1, r1)" by (rule IHv(2))
      with last(3) m show ?thesis by simp
    qed
    with l1 last(2) show ?thesis by auto
  next
    case (more v1 r1 r')
    have l1: "length r1 < length s" using more(1) by (rule IHv(1))
    have l: "length r < length r'" using more(3) by (rule IHe(1))
    have "parse_elements m s acc = Some (v, r)" if b: "2 * (length s - length r) \<le> Suc m" for m
    proof -
      from b l1 l more(2) obtain m' where m: "m = Suc m'" by (cases m) auto
      have "2 * (length s - length r1) \<le> Suc m'"
        using b l1 l more(2) m by simp
      with more(1) have v: "parse_value m' s = Some (v1, r1)" by (rule IHv(2))
      have "2 * (length r' - length r) \<le> Suc m'"
        using b l1 l more(2) m by simp
      with more(3) have "parse_elements m' r' (acc @ [v1]) = Some (v, r)" by (rule IHe(2))
      with more(4) [OF v] m show ?thesis by simp
    qed
    with l1 l more(2) show ?thesis by auto
  qed
  have M: "length r < length s
      \<and> (\<forall>m. 2 * (length s - length r) \<le> Suc m \<longrightarrow> parse_members m s acc = Some (v, r))"
    if p: "parse_members (Suc n) s acc = Some (v, r)" for s acc v r
    using p
  proof (cases rule: parse_members_Suc_cases)
    case (last r2 v1 r3)
    have l3: "length r3 < length r2" using last(2) by (rule IHv(1))
    have "parse_members m s acc = Some (v, r)" if b: "2 * (length s - length r) \<le> Suc m" for m
    proof -
      from b l3 last(1,3) obtain m' where m: "m = Suc m'" by (cases m) auto
      have "2 * (length r2 - length r3) \<le> Suc m'"
        using b l3 last(1,3) m by simp
      with last(2) have "parse_value m' r2 = Some (v1, r3)" by (rule IHv(2))
      with last(4) m show ?thesis by simp
    qed
    with l3 last(1,3) show ?thesis by auto
  next
    case (more r2 v1 r3 r4 k)
    have l3: "length r3 < length r2" using more(2) by (rule IHv(1))
    have l: "length r < length r4" using more(4) by (rule IHm(1))
    have "parse_members m s acc = Some (v, r)" if b: "2 * (length s - length r) \<le> Suc m" for m
    proof -
      from b l3 l more(1,3) obtain m' where m: "m = Suc m'" by (cases m) auto
      have "2 * (length r2 - length r3) \<le> Suc m'"
        using b l3 l more(1,3) m by simp
      with more(2) have v: "parse_value m' r2 = Some (v1, r3)" by (rule IHv(2))
      have "2 * (length r4 - length r) \<le> Suc m'"
        using b l3 l more(1,3) m by simp
      with more(4) have "parse_members m' r4 (acc @ [(k, v1)]) = Some (v, r)" by (rule IHm(2))
      with more(5) [OF v] m show ?thesis by simp
    qed
    with l3 l more(1,3) show ?thesis by auto
  qed
  show ?case using V E M by blast
qed

text \<open>
  The fuel of \<open>JSON_parse\<close> is enough: a text that parses with some fuel parses, to
  the same value, with the fuel that \<open>JSON_parse\<close> gives.
\<close>

lemma JSON_parse_fuel_enough:
  assumes "parse_value n s = Some (v, r)"
  shows "parse_value (2 * length s + 2) s = Some (v, r)"
proof -
  have "2 * (length s - length r) \<le> Suc (2 * length s + 2)" by simp
  with assms parse_fuel [of n] show ?thesis by blast
qed

subsection \<open>Chunk invariance of the pipeline\<close>

lemma split_not_Nil: "split sep s \<noteq> []"
  by (induction sep s rule: split.induct) (auto split: list.splits)

lemma split_singleton: "split sep s = [p] \<Longrightarrow> p = s"
proof (induction sep s arbitrary: p rule: split.induct)
  case (1 sep)
  then show ?case by simp
next
  case (2 sep c cs)
  show ?case
  proof (cases "sep \<noteq> [] \<and> startsWith (c # cs) sep")
    case True
    with "2.prems" show ?thesis by (simp add: split_not_Nil)
  next
    case False
    obtain q qs where q: "split sep cs = q # qs"
      using split_not_Nil [of sep cs] by (cases "split sep cs") auto
    with False "2.prems" have "qs = []" "p = c # q" by auto
    with q False "2.IH"(2) [of q] show ?thesis by simp
  qed
qed

lemma split_short: "length s < length sep \<Longrightarrow> split sep s = [s]"
proof (induction s)
  case Nil
  then show ?case by simp
next
  case (Cons c cs)
  then have "\<not> startsWith (c # cs) sep"
    by (auto simp: startsWith_def)
  with Cons show ?case by simp
qed

lemma startsWith_append:
  "startsWith s sep \<Longrightarrow> startsWith (s @ t) sep"
proof -
  assume "startsWith s sep"
  then have "s = sep @ drop (length sep) s"
    unfolding startsWith_def by (metis append_take_drop_id)
  then have "s @ t = sep @ (drop (length sep) s @ t)"
    by (metis append.assoc)
  then show ?thesis
    unfolding startsWith_def by (metis append_eq_conv_conj)
qed

lemma startsWith_length: "startsWith s sep \<Longrightarrow> length sep \<le> length s"
proof -
  assume "startsWith s sep"
  then have "length (take (length sep) s) = length sep"
    by (simp add: startsWith_def)
  then show ?thesis by simp
qed

lemma startsWith_append_long:
  "length sep \<le> length s \<Longrightarrow> startsWith (s @ t) sep \<Longrightarrow> startsWith s sep"
  by (simp add: startsWith_def)

lemma split_append:
  "split sep (s @ t) = butlast (split sep s) @ split sep (last (split sep s) @ t)"
proof (induction sep s rule: split.induct)
  case (1 sep)
  show ?case by simp
next
  case (2 sep c cs)
  show ?case
  proof (cases "sep \<noteq> [] \<and> startsWith (c # cs) sep")
    case True
    then have st: "startsWith (c # (cs @ t)) sep"
      using startsWith_append [of "c # cs" sep t] by simp
    have len: "length sep \<le> length (c # cs)"
      using True startsWith_length [of "c # cs" sep] by simp
    have dr: "drop (length sep) (c # (cs @ t)) = drop (length sep) (c # cs) @ t"
      using len by (cases "length sep") simp_all
    have "split sep ((c # cs) @ t) = [] # split sep (drop (length sep) (c # cs) @ t)"
      using True st dr by simp
    also have "\<dots> = [] # (butlast (split sep (drop (length sep) (c # cs)))
                 @ split sep (last (split sep (drop (length sep) (c # cs))) @ t))"
      using "2.IH"(1) [OF True] by simp
    also have "\<dots> = butlast (split sep (c # cs)) @ split sep (last (split sep (c # cs)) @ t)"
      using True by (simp add: split_not_Nil)
    finally show ?thesis .
  next
    case False
    obtain q qs where q: "split sep cs = q # qs"
      using split_not_Nil [of sep cs] by (cases "split sep cs") auto
    have whole: "split sep (c # cs) = (c # q) # qs"
      using False q by simp
    show ?thesis
    proof (cases "qs = []")
      case True
      with whole have "split sep (c # cs) = [c # q]" by simp
      moreover from this have "c # q = c # cs" by (rule split_singleton)
      ultimately show ?thesis by simp
    next
      case qs: False
      have nst: "\<not> (sep \<noteq> [] \<and> startsWith (c # (cs @ t)) sep)"
      proof
        assume a: "sep \<noteq> [] \<and> startsWith (c # (cs @ t)) sep"
        show False
        proof (cases "length sep \<le> length (c # cs)")
          case True
          with a False startsWith_append_long [of sep "c # cs" t] show False by simp
        next
          case False
          then have "length (c # cs) < length sep" by simp
          then have "split sep (c # cs) = [c # cs]" by (rule split_short)
          with whole qs show False by simp
        qed
      qed
      have "split sep ((c # cs) @ t) =
              (case split sep (cs @ t) of [] \<Rightarrow> [[c]] | p # ps \<Rightarrow> (c # p) # ps)"
        using nst by auto
      also have "split sep (cs @ t) = butlast (q # qs) @ split sep (last (q # qs) @ t)"
        using "2.IH"(2) [OF False] q by simp
      also have "butlast (q # qs) = q # butlast qs"
        using qs by simp
      finally show ?thesis
        using whole qs by simp
    qed
  qed
qed

lemma decode_append:
  "decode d (a @ b) =
     (case decode d a of (t, d') \<Rightarrow> (case decode d' b of (t', d'') \<Rightarrow> (t @ t', d'')))"
  by (induction a arbitrary: d) (auto split: prod.splits)

lemma read_loop_merge:
  "read_loop h d buf (c1 # c2 # rest) = read_loop h d buf ((c1 @ c2) # rest)"
proof -
  obtain t1 d1 where 1: "decode d c1 = (t1, d1)" by (cases "decode d c1")
  obtain t2 d2 where 2: "decode d1 c2 = (t2, d2)" by (cases "decode d1 c2")
  have 12: "decode d (c1 @ c2) = (t1 @ t2, d2)"
    by (simp add: decode_append 1 2)
  define F1 where "F1 = split [0xA, 0xA] (buf @ t1)"
  define F2 where "F2 = split [0xA, 0xA] (last F1 @ t2)"
  have F: "split [0xA, 0xA] (buf @ t1 @ t2) = butlast F1 @ F2"
    using split_append [of "[0xA, 0xA]" "buf @ t1" t2] by (simp add: F1_def F2_def)
  have F2: "F2 \<noteq> []" by (simp add: F2_def split_not_Nil)
  have "read_loop h d buf (c1 # c2 # rest) =
          concat (map h (butlast F1)) @ concat (map h (butlast F2)) @ read_loop h d2 (last F2) rest"
    by (simp add: 1 2 F1_def F2_def Let_def)
  moreover have "read_loop h d buf ((c1 @ c2) # rest) =
          concat (map h (butlast (butlast F1 @ F2))) @ read_loop h d2 (last (butlast F1 @ F2)) rest"
    by (simp add: 12 F Let_def)
  ultimately show ?thesis
    using F2 by (simp add: butlast_append)
qed

lemma read_loop_concat:
  "chunks \<noteq> [] \<Longrightarrow> read_loop h d buf chunks = read_loop h d buf [concat chunks]"
proof (induction chunks rule: length_induct)
  case (1 chunks)
  then have IH: "\<And>ys. length ys < length chunks \<Longrightarrow> ys \<noteq> []
      \<Longrightarrow> read_loop h d buf ys = read_loop h d buf [concat ys]"
    by blast
  show ?case
  proof (cases chunks)
    case Nil
    with 1 show ?thesis by blast
  next
    case c1: (Cons c1 r)
    show ?thesis
    proof (cases r)
      case Nil
      with c1 have "concat chunks = c1" by simp
      with c1 Nil show ?thesis by (simp only:)
    next
      case (Cons c2 rest)
      have c: "chunks = c1 # c2 # rest" using c1 Cons by simp
      have "length ((c1 @ c2) # rest) < length chunks" by (simp add: c)
      then have "read_loop h d buf ((c1 @ c2) # rest) = read_loop h d buf [concat ((c1 @ c2) # rest)]"
        by (rule IH) blast
      moreover have "concat ((c1 @ c2) # rest) = concat chunks" by (simp add: c)
      ultimately show ?thesis
        by (simp only: c read_loop_merge)
    qed
  qed
qed

lemma read_loop_empty_chunk: "read_loop h d [] [[]] = []"
  by simp

lemma read_loop_bytes:
  "read_loop h new_TextDecoder [] chunks = read_loop h new_TextDecoder [] [concat chunks]"
  by (cases "chunks = []") (simp_all add: read_loop_concat)

subsection \<open>Data lines and frames\<close>

lemma JSON_parse_empty: "JSON_parse [] = Inl SyntaxError"
  by code_simp

lemma JSON_parse_DONE: "JSON_parse (js ''[DONE]'') = Inl SyntaxError"
  by code_simp

lemma handle_data_line_parsed:
  assumes "payload_of line = Inr payload"
  shows "handle_data_line rw line = handle_payload rw payload"
proof -
  define jsonStr where "jsonStr = trim (drop (length (js ''data: '')) line)"
  have p: "JSON_parse jsonStr = Inr payload"
    using assms by (simp add: payload_of_def jsonStr_def)
  then have "jsonStr \<noteq> []" "jsonStr \<noteq> js ''[DONE]''"
    using JSON_parse_empty JSON_parse_DONE by auto
  then show ?thesis
    using p unfolding handle_data_line_def jsonStr_def [symmetric] by (simp add: Let_def)
qed

lemma handle_data_line_malformed:
  assumes "payload_of line = Inl e"
  shows "handle_data_line rw line = []"
  using assms unfolding handle_data_line_def payload_of_def by (simp add: Let_def)

lemma delta_is_not_error: "JString (js ''content_block_delta'') \<noteq> JString (js ''error'')"
  by (simp add: js_def)

lemma handle_payload_delta:
  assumes "is_delta_event payload"
  shows "handle_payload rw payload =
           (case delta_text payload of None \<Rightarrow> [] | Some t \<Rightarrow> if t = [] then [] else [rw t])"
  using assms delta_is_not_error
  unfolding handle_payload_def is_delta_event_def delta_text_def
  by (auto split: option.splits json.splits)

lemma split_no_newline: "0xA \<notin> set l \<Longrightarrow> split [0xA] l = [l]"
  by (induction l) (auto simp: startsWith_def)

lemma split_line: "0xA \<notin> set l \<Longrightarrow> split [0xA] (l @ 0xA # rest) = l # split [0xA] rest"
  by (induction l) (auto simp: startsWith_def split_not_Nil split: list.splits)

lemma split_join_lines:
  "ls \<noteq> [] \<Longrightarrow> \<forall>l \<in> set ls. 0xA \<notin> set l \<Longrightarrow> split [0xA] (join_lines ls) = ls"
proof (induction ls rule: join_lines.induct)
  case 1
  then show ?case by simp
next
  case (2 l)
  then show ?case by (simp add: split_no_newline)
next
  case (3 l v va)
  then show ?case by (simp add: split_line)
qed

lemma frame_rebrand_every_data_line:
  assumes "ls \<noteq> []" "\<forall>l \<in> set ls. 0xA \<notin> set l"
  shows "handle_frame_rebrand cfg (join_lines ls) =
           concat (map (handle_data_line (enforceBranding cfg)) (filter is_data_line ls))"
proof -
  have "is_data_line = (\<lambda>line. startsWith line (js ''data: ''))"
    by (auto simp: is_data_line_def)
  then show ?thesis
    using split_join_lines [OF assms] by (simp add: handle_frame_rebrand_def)
qed

lemma frame_redact_first_data_line:
  assumes "ls \<noteq> []" "\<forall>l \<in> set ls. 0xA \<notin> set l"
  shows "handle_frame_redact (join_lines ls) =
           (case find is_data_line ls of
              None \<Rightarrow> []
            | Some l \<Rightarrow> handle_data_line enforceNoProviderLeak l)"
proof -
  have "is_data_line = (\<lambda>line. startsWith line (js ''data: ''))"
    by (auto simp: is_data_line_def)
  then show ?thesis
    using split_join_lines [OF assms] by (simp add: handle_frame_redact_def)
qed

text \<open>The client writes of a stream are those of its complete frames, in order.\<close>

lemma read_loop_frames:
  "read_loop h new_TextDecoder [] chunks =
     concat (map h (butlast (split [0xA, 0xA] (fst (decode new_TextDecoder (concat chunks))))))"
proof -
  obtain t d where d: "decode new_TextDecoder (concat chunks) = (t, d)"
    by (cases "decode new_TextDecoder (concat chunks)")
  have "read_loop h new_TextDecoder [] [concat chunks] =
          concat (map h (butlast (split [0xA, 0xA] t)))"
    by (simp add: d Let_def)
  then show ?thesis
    using read_loop_bytes [of h chunks] d by simp
qed

text \<open>
  C10. For a data line whose payload parses to a \<open>content_block_delta\<close> event, in
  both variants (\<open>rw\<close> is the variant's rewriter): when \<open>delta.text\<close> is missing, is
  not a string, or is the empty string, nothing is written to the client; when it is a
  non-empty string, exactly that string, rewritten, is written.
\<close>

theorem delta_written_iff_text_nonempty:
  assumes "payload_of line = Inr payload" and "is_delta_event payload"
  shows "(delta_text payload = None \<or> delta_text payload = Some [] \<longrightarrow>
            handle_data_line rw line = [])
       \<and> (\<forall>t. delta_text payload = Some t \<and> t \<noteq> [] \<longrightarrow> handle_data_line rw line = [rw t])"
  using handle_data_line_parsed [OF assms(1), of rw] handle_payload_delta [OF assms(2), of rw]
  by auto

text \<open>
  C1. Two sequences of chunks that carry the same bytes give the same sequence of
  client writes, in both variants, wherever the chunks are cut.
\<close>

theorem pipeline_chunk_invariant:
  assumes "concat chunks1 = concat chunks2"
  shows "pipeAnthropicSSEToPlainText_redact chunks1 = pipeAnthropicSSEToPlainText_redact chunks2
       \<and> pipeAnthropicSSEToPlainText_rebrand cfg chunks1 = pipeAnthropicSSEToPlainText_rebrand cfg chunks2"
  unfolding pipeAnthropicSSEToPlainText_redact_def pipeAnthropicSSEToPlainText_rebrand_def
  using assms
    read_loop_bytes [of handle_frame_redact chunks1] read_loop_bytes [of handle_frame_redact chunks2]
    read_loop_bytes [of "handle_frame_rebrand cfg" chunks1]
    read_loop_bytes [of "handle_frame_rebrand cfg" chunks2]
  by (simp del: read_loop.simps)

text \<open>
  The sample stream cut inside a two-byte character and inside the blank line between
  two frames, against the same stream in one chunk.
\<close>

theorem pipeline_chunk_invariant_witness:
  "concat [stream_part1, stream_part2, stream_part3]
     = concat [stream_part1 @ stream_part2 @ stream_part3]
   \<and> pipeAnthropicSSEToPlainText_redact [stream_part1, stream_part2, stream_part3]
       = [js ''caf'' @ [0xE9], error_sentinel]
   \<and> pipeAnthropicSSEToPlainText_redact [stream_part1 @ stream_part2 @ stream_part3]
       = [js ''caf'' @ [0xE9], error_sentinel]
   \<and> pipeAnthropicSSEToPlainText_rebrand sample_config [stream_part1, stream_part2, stream_part3]
       = [js ''caf'' @ [0xE9], error_sentinel]
   \<and> pipeAnthropicSSEToPlainText_rebrand sample_config [stream_part1 @ stream_part2 @ stream_part3]
       = [js ''caf'' @ [0xE9], error_sentinel]"
proof -
  have c: "concat [stream_part1, stream_part2, stream_part3]
             = concat [stream_part1 @ stream_part2 @ stream_part3]"
    by simp
  have r: "pipeAnthropicSSEToPlainText_redact [stream_part1, stream_part2, stream_part3]
             = [js ''caf'' @ [0xE9], error_sentinel]"
    by code_simp
  have b: "pipeAnthropicSSEToPlainText_rebrand sample_config [stream_part1, stream_part2, stream_part3]
             = [js ''caf'' @ [0xE9], error_sentinel]"
    by code_simp
  note inv = pipeline_chunk_invariant [OF c, of sample_config]
  have r': "pipeAnthropicSSEToPlainText_redact [stream_part1 @ stream_part2 @ stream_part3]
              = [js ''caf'' @ [0xE9], error_sentinel]"
    using inv r by (simp only:)
  have b': "pipeAnthropicSSEToPlainText_rebrand sample_config [stream_part1 @ stream_part2 @ stream_part3]
              = [js ''caf'' @ [0xE9], error_sentinel]"
    using inv b by (simp only:)
  show ?thesis
    using c r r' b b' by blast
qed

text \<open>
  C2. A frame with two data lines, each a text delta: the redacting variant
  (\<open>claude-chat/server.js\<close>, which takes the first data line with \<open>find\<close>) writes
  the first delta only; the rebranding variant (which takes them all with \<open>filter\<close>)
  writes both, in order.
\<close>

theorem redact_handles_only_first_data_line:
  "pipeAnthropicSSEToPlainText_redact [two_deltas_one_frame] = [js ''Hi'']
   \<and> pipeAnthropicSSEToPlainText_rebrand sample_config [two_deltas_one_frame]
       = [js ''Hi'', js '' there'']"
  by code_simp

text \<open>
  C4. A frame whose first data line is malformed and whose second is a text delta:
  the redacting variant writes nothing, the rebranding variant writes the delta. With
  the malformed line between two text deltas of one frame, the redacting variant
  writes the first delta only, the rebranding variant both.
\<close>

theorem redact_malformed_line_hides_rest_of_frame:
  "pipeAnthropicSSEToPlainText_redact [malformed_first] = []
   \<and> pipeAnthropicSSEToPlainText_rebrand sample_config [malformed_first] = [js ''Hi'']
   \<and> pipeAnthropicSSEToPlainText_redact [malformed_between] = [js ''Hi'']
   \<and> pipeAnthropicSSEToPlainText_rebrand sample_config [malformed_between]
       = [js ''Hi'', js '' there'']"
  by code_simp

theorem delta_written_iff_text_nonempty_witness:
  "payload_of (js (delta_line ''Hi'')) = Inr (delta_payload (JString (js ''Hi'')))
   \<and> handle_data_line enforceNoProviderLeak (js (delta_line ''Hi'')) = [js ''Hi'']
   \<and> handle_data_line enforceNoProviderLeak (js (delta_line [])) = []
   \<and> handle_data_line enforceNoProviderLeak (js numeric_text_line) = []
   \<and> handle_data_line enforceNoProviderLeak (js no_delta_line) = []"
proof -
  have p1: "payload_of (js (delta_line ''Hi'')) = Inr (delta_payload (JString (js ''Hi'')))"
    by code_simp
  have p2: "payload_of (js (delta_line [])) = Inr (delta_payload (JString []))"
    by code_simp
  have p3: "payload_of (js numeric_text_line) = Inr (delta_payload (JNumber (Fin 5)))"
    by code_simp
  have p4: "payload_of (js no_delta_line)
              = Inr (JObject [(js ''type'', JString (js ''content_block_delta''))])"
    by code_simp
  have d: "is_delta_event (delta_payload v)" for v
    by (simp add: is_delta_event_def delta_payload_def js_def)
  have d4: "is_delta_event (JObject [(js ''type'', JString (js ''content_block_delta''))])"
    by (simp add: is_delta_event_def)
  have t1: "delta_text (delta_payload (JString (js ''Hi''))) = Some (js ''Hi'')"
    and t2: "delta_text (delta_payload (JString [])) = Some []"
    and t3: "delta_text (delta_payload (JNumber (Fin 5))) = None"
    and t4: "delta_text (JObject [(js ''type'', JString (js ''content_block_delta''))]) = None"
    by (simp_all add: delta_text_def delta_payload_def js_def)
  have r: "enforceNoProviderLeak (js ''Hi'') = js ''Hi''"
    by code_simp
  have ne: "js ''Hi'' \<noteq> []"
    by (simp add: js_def)
  show ?thesis
    using delta_written_iff_text_nonempty [OF p1 d, of enforceNoProviderLeak]
      delta_written_iff_text_nonempty [OF p2 d, of enforceNoProviderLeak]
      delta_written_iff_text_nonempty [OF p3 d, of enforceNoProviderLeak]
      delta_written_iff_text_nonempty [OF p4 d4, of enforceNoProviderLeak]
      p1 t1 t2 t3 t4 r ne
    by simp
qed

text \<open>
  In the rebranding variant a malformed data line changes nothing in the writes of
  its frame.
\<close>

lemma frame_rebrand_skips_malformed:
  assumes "\<forall>l \<in> set (ls1 @ bad # ls2). 0xA \<notin> set l"
    and "payload_of bad = Inl e" and "ls1 @ ls2 \<noteq> []"
  shows "handle_frame_rebrand cfg (join_lines (ls1 @ bad # ls2))
           = handle_frame_rebrand cfg (join_lines (ls1 @ ls2))"
proof -
  have "handle_frame_rebrand cfg (join_lines (ls1 @ bad # ls2)) =
          concat (map (handle_data_line (enforceBranding cfg))
                    (filter is_data_line (ls1 @ bad # ls2)))"
    using assms(1) by (intro frame_rebrand_every_data_line) auto
  moreover have "handle_frame_rebrand cfg (join_lines (ls1 @ ls2)) =
          concat (map (handle_data_line (enforceBranding cfg)) (filter is_data_line (ls1 @ ls2)))"
    using assms(1,3) by (intro frame_rebrand_every_data_line) auto
  ultimately show ?thesis
    using handle_data_line_malformed [OF assms(2)] by simp
qed

subsection \<open>The route and the rewriter\<close>

lemma start_streaming_fresh:
  "start_streaming fresh_response =
     Inr (fresh_response\<lparr>headers := streaming_headers, headersSent := True,
                          sent_status := Some 200, sent_headers := streaming_headers\<rparr>)"
  by (simp add: start_streaming_def res_setHeader_def res_flushHeaders_def send_head_def
      fresh_response_def streaming_headers_def)

lemma normalizeMessages_not_array:
  "\<forall>ms. v \<noteq> Some (JArray ms) \<Longrightarrow> normalizeMessages num v = Inr None"
  by (cases "(num, v)" rule: normalizeMessages.cases) simp_all

text \<open>
  C8. When the \<open>messages\<close> field is missing or not a list, or when normalization
  returns null, both variants answer with status 400 and the JSON body
  \<open>{error: "Invalid messages format"}\<close>, end the response, and make no upstream call.
\<close>

theorem no_messages_gives_400:
  assumes "(\<forall>ms. messages_of req \<noteq> Some (JArray ms))
           \<or> normalizeMessages num (messages_of req) = Inr None"
  shows "received_status (route_redact num cfg req answer) = Some 400
       \<and> received_body (route_redact num cfg req answer) = [Json (JObject [(js ''error'', JString (js ''Invalid messages format''))])]
       \<and> writableEnded (res (route_redact num cfg req answer))
       \<and> upstream_calls (route_redact num cfg req answer) = []
       \<and> received_status (route_rebrand num cfg req answer) = Some 400
       \<and> received_body (route_rebrand num cfg req answer) = [Json (JObject [(js ''error'', JString (js ''Invalid messages format''))])]
       \<and> writableEnded (res (route_rebrand num cfg req answer))
       \<and> upstream_calls (route_rebrand num cfg req answer) = []"
proof -
  have n: "normalizeMessages num (messages_of req) = Inr None"
    using assms normalizeMessages_not_array by blast
  have j: "res_json invalid_messages (res_status 400 fresh_response) =
             Inr (fresh_response\<lparr>statusCode := 400,
                    headers := [(''Content-Type'', ''application/json; charset=utf-8'')],
                    headersSent := True, sent_status := Some 400,
                    sent_headers := [(''Content-Type'', ''application/json; charset=utf-8'')],
                    sent_body := [Json invalid_messages], writableEnded := True\<rparr>)"
    by (simp add: res_json_def res_status_def send_head_def fresh_response_def)
  have "try_route_redact num cfg req answer fresh_world =
          (None, fresh_world\<lparr>res := fresh_response\<lparr>statusCode := 400,
                    headers := [(''Content-Type'', ''application/json; charset=utf-8'')],
                    headersSent := True, sent_status := Some 400,
                    sent_headers := [(''Content-Type'', ''application/json; charset=utf-8'')],
                    sent_body := [Json invalid_messages], writableEnded := True\<rparr>\<rparr>)"
    using n j by (simp add: try_route_redact_def messages_of_def fresh_world_def)
  moreover have "try_route_rebrand num cfg req answer fresh_world =
          (None, fresh_world\<lparr>res := fresh_response\<lparr>statusCode := 400,
                    headers := [(''Content-Type'', ''application/json; charset=utf-8'')],
                    headersSent := True, sent_status := Some 400,
                    sent_headers := [(''Content-Type'', ''application/json; charset=utf-8'')],
                    sent_body := [Json invalid_messages], writableEnded := True\<rparr>\<rparr>)"
    using n j by (simp add: try_route_rebrand_def messages_of_def fresh_world_def)
  ultimately show ?thesis
    by (simp add: route_redact_def route_rebrand_def received_status_def received_body_def
        fresh_world_def invalid_messages_def)
qed

theorem no_messages_gives_400_witness:
  "received_status (route_redact (\<lambda>n. []) sample_config \<lparr>requestId = js ''rid-1'', req_body = None\<rparr> upstream_503) = Some 400
   \<and> received_body (route_rebrand (\<lambda>n. []) sample_config \<lparr>requestId = js ''rid-1'', req_body = None\<rparr> upstream_503)
       = [Json (JObject [(js ''error'', JString (js ''Invalid messages format''))])]
   \<and> upstream_calls (route_redact (\<lambda>n. []) sample_config \<lparr>requestId = js ''rid-1'', req_body = None\<rparr> upstream_503) = []
   \<and> normalizeMessages (\<lambda>n. []) (messages_of (user_request ''  '')) = Inr None
   \<and> received_status (route_rebrand (\<lambda>n. []) sample_config (user_request ''  '') upstream_503) = Some 400
   \<and> received_body (route_redact (\<lambda>n. []) sample_config (user_request ''  '') upstream_503)
       = [Json (JObject [(js ''error'', JString (js ''Invalid messages format''))])]
   \<and> upstream_calls (route_rebrand (\<lambda>n. []) sample_config (user_request ''  '') upstream_503) = []"
proof -
  have a: "\<forall>ms. messages_of \<lparr>requestId = js ''rid-1'', req_body = None\<rparr> \<noteq> Some (JArray ms)"
    by (simp add: messages_of_def)
  have b: "normalizeMessages (\<lambda>n. []) (messages_of (user_request ''  '')) = Inr None"
    by code_simp
  show ?thesis
    using no_messages_gives_400 [OF disjI1 [OF a], of "\<lambda>n. []" sample_config upstream_503]
      no_messages_gives_400 [OF disjI2 [OF b], of sample_config upstream_503] b
    by blast
qed

text \<open>
  C6. In the rebranding variant, when the last normalized message matches the
  identity-probe pattern, no upstream request is made and the client receives status
  200 and a body that is exactly the sentence \<open>I am BRAND_MODEL, made by BRAND_MAKER.\<close>
  built from the configured brand strings.
\<close>

theorem identity_probe_answered_without_upstream:
  assumes "normalizeMessages num (messages_of req) = Inr (Some normalized)"
    and "isIdentityProbe normalized"
  shows "upstream_calls (route_rebrand num cfg req answer) = []
       \<and> received_status (route_rebrand num cfg req answer) = Some 200
       \<and> received_body (route_rebrand num cfg req answer) = [Text (js ''I am '' @ BRAND_MODEL cfg @ js '', made by '' @ BRAND_MAKER cfg @ js ''.'')]
       \<and> writableEnded (res (route_rebrand num cfg req answer))
       \<and> error_log (route_rebrand num cfg req answer) = []"
proof -
  have "try_route_rebrand num cfg req answer fresh_world =
          (None, fresh_world\<lparr>res := res_end (Some (brand_sentence cfg))
             (fresh_response\<lparr>headers := streaming_headers, headersSent := True,
                          sent_status := Some 200, sent_headers := streaming_headers\<rparr>)\<rparr>)"
    using assms start_streaming_fresh
    by (simp add: try_route_rebrand_def messages_of_def fresh_world_def)
  then show ?thesis
    by (simp add: route_rebrand_def received_status_def received_body_def
        fresh_world_def res_end_def send_head_def fresh_response_def brand_sentence_def)
qed

theorem identity_probe_answered_without_upstream_witness:
  "normalizeMessages (\<lambda>n. []) (messages_of (user_request ''What model are you?''))
     = Inr (Some [\<lparr>role = js ''user'',
                   content = [\<lparr>block_type = js ''text'', block_text = js ''What model are you?''\<rparr>]\<rparr>])
   \<and> isIdentityProbe [\<lparr>role = js ''user'',
                   content = [\<lparr>block_type = js ''text'', block_text = js ''What model are you?''\<rparr>]\<rparr>]
   \<and> upstream_calls (route_rebrand (\<lambda>n. []) sample_config (user_request ''What model are you?'')
         (Resolves \<lparr>up_status = 200, up_body = Some [two_deltas_one_frame], up_text = None\<rparr>)) = []
   \<and> received_body (route_rebrand (\<lambda>n. []) sample_config (user_request ''What model are you?'')
         (Resolves \<lparr>up_status = 200, up_body = Some [two_deltas_one_frame], up_text = None\<rparr>))
       = [Text (js ''I am ClaudeX, made by M Alkindi.'')]"
proof -
  have n: "normalizeMessages (\<lambda>n. []) (messages_of (user_request ''What model are you?''))
     = Inr (Some [\<lparr>role = js ''user'',
                   content = [\<lparr>block_type = js ''text'', block_text = js ''What model are you?''\<rparr>]\<rparr>])"
    by code_simp
  have p: "isIdentityProbe [\<lparr>role = js ''user'',
                   content = [\<lparr>block_type = js ''text'', block_text = js ''What model are you?''\<rparr>]\<rparr>]"
    by code_simp
  have s: "js ''I am '' @ BRAND_MODEL sample_config @ js '', made by '' @ BRAND_MAKER sample_config
             @ js ''.'' = js ''I am ClaudeX, made by M Alkindi.''"
    by code_simp
  show ?thesis
    using identity_probe_answered_without_upstream [OF n p, of sample_config
        "Resolves \<lparr>up_status = 200, up_body = Some [two_deltas_one_frame], up_text = None\<rparr>"] n p s
    by simp
qed

lemma forward_upstream_failure:
  assumes "safeString num (get_prop (Some body) (js ''system'')) 4000 = Inr sys"
    and "\<not> up_ok u \<or> up_body u = None"
  shows "res (snd (forward_upstream pipe dflt num cfg req body normalized (Resolves u) fresh_world))
           = fresh_response\<lparr>statusCode := 502, headers := streaming_headers, headersSent := True,
                sent_status := Some 200, sent_headers := streaming_headers,
                sent_body := [Text (js ''Upstream error'')], writableEnded := True\<rparr>
       \<and> error_log (snd (forward_upstream pipe dflt num cfg req body normalized (Resolves u) fresh_world))
           = [Upstream_failure (requestId req) (up_status u)
                (case up_text u of None \<Rightarrow> [] | Some errText \<Rightarrow> take 5000 errText)]
       \<and> fst (forward_upstream pipe dflt num cfg req body normalized (Resolves u) fresh_world) = None"
proof -
  have "(if up_ok u then up_body u else None) = None"
    using assms(2) by auto
  then show ?thesis
    using assms(1) start_streaming_fresh
    by (simp add: forward_upstream_def fresh_world_def Let_def res_end_def res_status_def
        send_head_def fresh_response_def)
qed

text \<open>
  C3. A request with one user message, answered upstream by 503 without a body, in
  both variants: the streaming headers were set and flushed before the upstream call,
  so the client has received status 200 with the streaming headers, followed by the
  body \<open>Upstream error\<close>. The 502 is only assigned to \<open>statusCode\<close> after the
  status line has gone. The upstream status and text are in the error log.
\<close>

theorem upstream_failure_reaches_client_as_200:
  "received_status (route_redact num cfg (user_request ''hello'') upstream_503) = Some 200
   \<and> received_headers (route_redact num cfg (user_request ''hello'') upstream_503)
       = streaming_headers
   \<and> received_body (route_redact num cfg (user_request ''hello'') upstream_503)
       = [Text (js ''Upstream error'')]
   \<and> statusCode (res (route_redact num cfg (user_request ''hello'') upstream_503)) = 502
   \<and> error_log (route_redact num cfg (user_request ''hello'') upstream_503)
       = [Upstream_failure (js ''rid-1'') 503 (js ''overloaded'')]
   \<and> received_status (route_rebrand num cfg (user_request ''hello'') upstream_503) = Some 200
   \<and> received_headers (route_rebrand num cfg (user_request ''hello'') upstream_503)
       = streaming_headers
   \<and> received_body (route_rebrand num cfg (user_request ''hello'') upstream_503)
       = [Text (js ''Upstream error'')]
   \<and> statusCode (res (route_rebrand num cfg (user_request ''hello'') upstream_503)) = 502"
proof -
  define body where "body = nullish_or (req_body (user_request ''hello'')) (JObject [])"
  define msgs where "msgs = [\<lparr>role = js ''user'',
      content = [\<lparr>block_type = js ''text'', block_text = js ''hello''\<rparr>]\<rparr>]"
  define u where "u = \<lparr>up_status = 503, up_body = None, up_text = Some (js ''overloaded'')\<rparr>"
  have n: "normalizeMessages num (get_prop (Some body) (js ''messages'')) = Inr (Some msgs)"
    unfolding body_def msgs_def by code_simp
  have p: "\<not> isIdentityProbe msgs"
    unfolding msgs_def by code_simp
  have s: "safeString num (get_prop (Some body) (js ''system'')) 4000 = Inr []"
    unfolding body_def by code_simp
  have f: "\<not> up_ok u \<or> up_body u = None"
    by (simp add: u_def)
  have rid: "requestId (user_request ''hello'') = js ''rid-1''"
    by (simp add: user_request_def)
  have ut: "up_status u = 503"
    "(case up_text u of None \<Rightarrow> [] | Some errText \<Rightarrow> take 5000 errText) = js ''overloaded''"
    by (simp_all add: u_def js_def)
  note fw = forward_upstream_failure [OF s f, of _ _ _ "user_request ''hello''" msgs]
  have "route_redact num cfg (user_request ''hello'') upstream_503 =
          snd (forward_upstream pipeAnthropicSSEToPlainText_redact default_system_redact
                 num cfg (user_request ''hello'') body msgs (Resolves u) fresh_world)"
    using n fw [of pipeAnthropicSSEToPlainText_redact default_system_redact cfg]
    by (auto simp: route_redact_def try_route_redact_def body_def [symmetric] upstream_503_def
        u_def [symmetric] split: prod.splits)
  moreover have "route_rebrand num cfg (user_request ''hello'') upstream_503 =
          snd (forward_upstream (pipeAnthropicSSEToPlainText_rebrand cfg) (default_system_rebrand cfg)
                 num cfg (user_request ''hello'') body msgs (Resolves u) fresh_world)"
    using n p fw [of "pipeAnthropicSSEToPlainText_rebrand cfg" "default_system_rebrand cfg" cfg]
    by (auto simp: route_rebrand_def try_route_rebrand_def body_def [symmetric] upstream_503_def
        u_def [symmetric] split: prod.splits)
  ultimately show ?thesis
    using fw [of pipeAnthropicSSEToPlainText_redact default_system_redact cfg]
      fw [of "pipeAnthropicSSEToPlainText_rebrand cfg" "default_system_rebrand cfg" cfg]
    by (simp add: received_status_def received_headers_def received_body_def rid ut)
qed

text \<open>
  C9. On \<open>GPT trained by OpenAI.\<close> the first replacement takes the blank after
  \<open>GPT\<close> into the match (\<open>[-\s]?\<close>), so the placeholder is glued to \<open>trained\<close>,
  the second pattern finds no word boundary before it, and the attribution clause
  stays in the output.
\<close>

theorem attribution_clause_survives_after_GPT:
  "enforceNoProviderLeak (js ''GPT trained by OpenAI.'')
     = js ''this assistanttrained by this assistant.''"
  by code_simp

end
